theory Spec2Isabelle
  imports Complex_Main "HOL-Library.Word"
begin

unbundle bit_operations_syntax

section \<open>Aperture photometry core of SEP (\<^verbatim>\<open>src/aper.c\<close>)\<close>

text \<open>
  Modelling conventions.
  \<^item> A C \<^verbatim>\<open>double\<close> (and the \<^verbatim>\<open>float\<close> pixel type) is a \<^typ>\<open>real\<close>: arithmetic is
    exact, there is no rounding, no overflow and no NaN. Where the C code divides by a
    value that can be zero, or takes the square root of a value that can be negative, on
    inputs it accepts, the model says what happens there explicitly instead of using
    the value HOL gives to \<open>x / 0\<close> or to \<open>sqrt\<close> of a negative number.
  \<^item> A C \<^verbatim>\<open>int\<close> has 32 bits and a \<^verbatim>\<open>long\<close> 64. Their values are of type \<^typ>\<open>int\<close>, and
    an \<^verbatim>\<open>int\<close> parameter of a function has a value that \<open>in_int\<close> accepts. The conversion
    \<^verbatim>\<open>(int)d\<close> of a \<^verbatim>\<open>double\<close> and the products and sums that the source computes in
    \<^verbatim>\<open>int\<close> arithmetic are undefined in C when the result is not a value of \<^verbatim>\<open>int\<close>: the
    model checks the range there and the result is \<open>None\<close> outside of it. An operation of
    which a step is undefined is undefined, \<open>None\<close>, as a whole.
  \<^item> A \<^verbatim>\<open>short\<close> flag word is a \<^typ>\<open>16 word\<close>, \<^verbatim>\<open>|=\<close> is bitwise \<open>OR\<close>.
  \<^item> An integer status code is a value of the datatype \<open>status\<close>.
  \<^item> Output parameters become components of the returned value.
\<close>

subsection \<open>Status codes and C conversions\<close>

text \<open>
  Modelled from the spec: the header \<^verbatim>\<open>sepcore.h\<close> with the numeric status codes is
  missing. The spec names the success status and the failure kinds IllegalApertureParams,
  IllegalSubpixel, NonEllipseParams and UnsupportedPixelFormat; the constructors keep
  the names the source uses for them (\<^verbatim>\<open>ILLEGAL_DTYPE\<close> is the status of an unsupported
  pixel format).
\<close>

datatype status =
    RETURN_OK
  | ILLEGAL_DTYPE
  | ILLEGAL_SUBPIX
  | NON_ELLIPSE_PARAMS
  | ILLEGAL_APER_PARAMS

definition in_int :: "int \<Rightarrow> bool" where
  \<comment> \<open>the values of a C \<^verbatim>\<open>int\<close>\<close>
  "in_int k \<longleftrightarrow> - (2 ^ 31) \<le> k \<and> k < 2 ^ 31"

definition c_trunc :: "real \<Rightarrow> int" where
  \<comment> \<open>truncation toward zero\<close>
  "c_trunc d = (if 0 \<le> d then \<lfloor>d\<rfloor> else - \<lfloor>- d\<rfloor>)"

definition c_int :: "real \<Rightarrow> int option" where
  \<comment> \<open>the C conversion \<^verbatim>\<open>(int)d\<close>: truncation toward zero, undefined when the truncated
      value is not a value of \<^verbatim>\<open>int\<close>\<close>
  "c_int d = (if in_int (c_trunc d) then Some (c_trunc d) else None)"

definition int_mul :: "int \<Rightarrow> int \<Rightarrow> int option" where
  \<comment> \<open>\<^verbatim>\<open>a * b\<close> on two \<^verbatim>\<open>int\<close> operands: undefined on overflow\<close>
  "int_mul a b = (if in_int (a * b) then Some (a * b) else None)"

definition int_add :: "int \<Rightarrow> int \<Rightarrow> int option" where
  \<comment> \<open>\<^verbatim>\<open>a + b\<close> on two \<^verbatim>\<open>int\<close> operands: undefined on overflow\<close>
  "int_add a b = (if in_int (a + b) then Some (a + b) else None)"

subsection \<open>Conversions between ellipse representations\<close>

definition sep_ellipse_axes :: "real \<Rightarrow> real \<Rightarrow> real \<Rightarrow> status + (real \<times> real \<times> real)" where
  \<comment> \<open>the result \<open>Inr (a, b, theta)\<close> stands for \<^verbatim>\<open>RETURN_OK\<close> with the three outputs written\<close>
  "sep_ellipse_axes cxx cyy cxy =
     (let p = cxx + cyy;
          q = cxx - cyy;
          t = sqrt (q * q + cxy * cxy)
      in if cxx * cyy - cxy * cxy / 4 \<le> 0 \<or> p \<le> 0 then Inl NON_ELLIPSE_PARAMS
         else
           let a = sqrt (2 / (p - t));
               b = sqrt (2 / (p + t));
               theta0 = (if cxy = 0 then 0 else (if q = 0 then 0 else arctan (cxy / q)) / 2);
               theta1 = (if cxx > cyy then theta0 + pi / 2 else theta0);
               theta2 = (if theta1 > pi / 2 then theta1 - pi else theta1)
           in Inr (a, b, theta2))"

definition sep_ellipse_coeffs :: "real \<Rightarrow> real \<Rightarrow> real \<Rightarrow> (real \<times> real \<times> real) option" where
  \<comment> \<open>\<open>Some (cxx, cyy, cxy)\<close>; with a zero axis the C code divides by zero (an infinity or
      a NaN in IEEE arithmetic), which has no real value: \<open>None\<close>\<close>
  "sep_ellipse_coeffs a b theta =
     (if a = 0 \<or> b = 0 then None
      else
        let costheta = cos theta;
            sintheta = sin theta
        in Some (costheta * costheta / (a * a) + sintheta * sintheta / (b * b),
                 sintheta * sintheta / (a * a) + costheta * costheta / (b * b),
                 2 * costheta * sintheta * (1 / (a * a) - 1 / (b * b))))"

subsection \<open>Flag bits\<close>

text \<open>
  Modelled from the spec: the header \<^verbatim>\<open>sep.h\<close> that defines the flag bits is missing. The
  spec describes the output flags as a bitset reporting truncation against the image
  bounds, presence of masked pixels, all pixels masked and a non-positive aggregate,
  combined by bitwise OR, and the option bitset as error-is-variance, error-is-array and
  mask-ignore. Each is a single bit, distinct from the others of its set; the
  positions are those of the library's public header.
\<close>

definition SEP_APER_TRUNC :: "16 word" where "SEP_APER_TRUNC = 0x0010"
definition SEP_APER_HASMASKED :: "16 word" where "SEP_APER_HASMASKED = 0x0020"
definition SEP_APER_ALLMASKED :: "16 word" where "SEP_APER_ALLMASKED = 0x0040"
definition SEP_APER_NONPOSITIVE :: "16 word" where "SEP_APER_NONPOSITIVE = 0x0080"

definition SEP_ERROR_IS_VAR :: "16 word" where "SEP_ERROR_IS_VAR = 0x0001"
definition SEP_ERROR_IS_ARRAY :: "16 word" where "SEP_ERROR_IS_ARRAY = 0x0002"
definition SEP_MASK_IGNORE :: "16 word" where "SEP_MASK_IGNORE = 0x0004"

subsection \<open>Box extent\<close>

text \<open>
  \<^verbatim>\<open>boxextent\<close> writes the four bounds and ORs the truncation bit into \<^verbatim>\<open>*flag\<close>; the
  model takes the flag word and returns \<open>(xmin, xmax, ymin, ymax, flag)\<close>, or \<open>None\<close> when
  one of the four conversions is undefined.
\<close>

definition boxextent ::
  "real \<Rightarrow> real \<Rightarrow> real \<Rightarrow> real \<Rightarrow> int \<Rightarrow> int \<Rightarrow> 16 word
     \<Rightarrow> (int \<times> int \<times> int \<times> int \<times> 16 word) option" where
  "boxextent x y rx ry w h flag =
     Option.bind (c_int (x - rx + 0.5)) (\<lambda>xmin.
     Option.bind (c_int (x + rx + 1.4999999)) (\<lambda>xmax.
     Option.bind (c_int (y - ry + 0.5)) (\<lambda>ymin.
     Option.bind (c_int (y + ry + 1.4999999)) (\<lambda>ymax.
       let (xmin, flag) = (if xmin < 0 then (0, flag OR SEP_APER_TRUNC) else (xmin, flag));
           (xmax, flag) = (if xmax > w then (w, flag OR SEP_APER_TRUNC) else (xmax, flag));
           (ymin, flag) = (if ymin < 0 then (0, flag OR SEP_APER_TRUNC) else (ymin, flag));
           (ymax, flag) = (if ymax > h then (h, flag OR SEP_APER_TRUNC) else (ymax, flag))
       in Some (xmin, xmax, ymin, ymax, flag)))))"

text \<open>
  In \<^verbatim>\<open>boxextent_ellipse\<close> the quotient \<^verbatim>\<open>cxy*cxy/(4.0*cyy)\<close> has a zero divisor when
  \<open>cyy = 0\<close>. In IEEE arithmetic it is then an infinity or a NaN, the test \<^verbatim>\<open>dxlim>0.0\<close>
  fails or \<^verbatim>\<open>r/sqrt(dxlim)\<close> is \<open>r\<close> over infinity, and \<^verbatim>\<open>dxlim\<close> ends as zero either way;
  likewise for \<^verbatim>\<open>dylim\<close> when \<open>cxx = 0\<close>. The model says so.
\<close>

definition boxextent_ellipse ::
  "real \<Rightarrow> real \<Rightarrow> real \<Rightarrow> real \<Rightarrow> real \<Rightarrow> real \<Rightarrow> int \<Rightarrow> int \<Rightarrow> 16 word
     \<Rightarrow> (int \<times> int \<times> int \<times> int \<times> 16 word) option" where
  "boxextent_ellipse x y cxx cyy cxy r w h flag =
     (let dxlim = cxx - cxy * cxy / (4 * cyy);
          dxlim = (if cyy = 0 then 0 else if dxlim > 0 then r / sqrt dxlim else 0);
          dylim = cyy - cxy * cxy / (4 * cxx);
          dylim = (if cxx = 0 then 0 else if dylim > 0 then r / sqrt dylim else 0)
      in boxextent x y dxlim dylim w h flag)"

subsection \<open>Percentile interpolation (\<^verbatim>\<open>sep_ppf\<close>)\<close>

text \<open>
  The array \<^verbatim>\<open>y\<close> with its length \<^verbatim>\<open>n\<close> is a list, and so is \<^verbatim>\<open>frac\<close> with \<^verbatim>\<open>nfrac\<close>; the
  output array \<^verbatim>\<open>xout\<close> is the returned list. \<open>ppf_scan\<close> is the \<^verbatim>\<open>while\<close> loop,
  \<open>ppf_radius\<close> the body of the loop over the fractions. The quotient \<^verbatim>\<open>xmax/n\<close> is
  only used when \<open>0 < i < n\<close>, so never with \<open>n = 0\<close>.
\<close>

function ppf_scan :: "real list \<Rightarrow> real \<Rightarrow> int \<Rightarrow> real \<Rightarrow> int \<times> real" where
  "ppf_scan y targsum i cumsum =
     (if i < int (length y) \<and> cumsum < targsum
      then ppf_scan y targsum (i + 1) (cumsum + y ! nat i)
      else (i, cumsum))"
  by pat_completeness auto
termination
  by (relation "measure (\<lambda>(y, targsum, i, cumsum). nat (int (length y) - i))") auto

declare ppf_scan.simps [simp del]

definition ppf_radius :: "real \<Rightarrow> real list \<Rightarrow> real \<Rightarrow> real" where
  "ppf_radius xmax y f =
     (let n = int (length y);
          sum = foldl (+) 0 y;
          step = xmax / of_int n;
          targsum = f * sum;
          (i, cumsum) = ppf_scan y targsum 0 0
      in if i = 0 then 0
         else if i = n then xmax
         else step * (of_int i + (targsum - cumsum) / y ! nat (i - 1)))"

definition sep_ppf :: "real \<Rightarrow> real list \<Rightarrow> real list \<Rightarrow> real list" where
  "sep_ppf xmax y fracs = map (ppf_radius xmax y) fracs"

subsection \<open>Correction for masked values\<close>

text \<open>
  The two \<^verbatim>\<open>for (j=n; j--;)\<close> statements that follow the pixel scan of
  \<^verbatim>\<open>sep_sum_circann_multi\<close>: the body runs for \<open>j = n - 1\<close> down to \<open>0\<close>.
\<close>

fun mask_ignore_loop :: "nat \<Rightarrow> real list \<Rightarrow> real list \<Rightarrow> real list" where
  "mask_ignore_loop 0 area maskarea = area"
| "mask_ignore_loop (Suc j) area maskarea =
     mask_ignore_loop j (area[j := area ! j - maskarea ! j]) maskarea"

fun mask_rescale_loop ::
  "nat \<Rightarrow> real list \<Rightarrow> real list \<Rightarrow> real list \<Rightarrow> real list \<Rightarrow> real list \<times> real list" where
  "mask_rescale_loop 0 sum_buf sumvar area maskarea = (sum_buf, sumvar)"
| "mask_rescale_loop (Suc j) sum_buf sumvar area maskarea =
     (let tmp = (if area ! j = maskarea ! j then 0
                 else area ! j / (area ! j - maskarea ! j))
      in mask_rescale_loop j (sum_buf[j := sum_buf ! j * tmp]) (sumvar[j := sumvar ! j * tmp])
           area maskarea)"

text \<open>
  The block \<^verbatim>\<open>if (mask) { ... }\<close>: \<open>has_mask\<close> says that a mask buffer was supplied,
  the result is \<open>(sum, sumvar, area)\<close>; the array \<^verbatim>\<open>sum\<close> is called \<open>sum_buf\<close>.
\<close>

definition correct_for_masked ::
  "bool \<Rightarrow> 16 word \<Rightarrow> nat \<Rightarrow> real list \<Rightarrow> real list \<Rightarrow> real list \<Rightarrow> real list
     \<Rightarrow> real list \<times> real list \<times> real list" where
  "correct_for_masked has_mask inflag n sum_buf sumvar area maskarea =
     (if has_mask then
        (if inflag AND SEP_MASK_IGNORE \<noteq> 0
         then (sum_buf, sumvar, mask_ignore_loop n area maskarea)
         else (let (sum_buf', sumvar') = mask_rescale_loop n sum_buf sumvar area maskarea
               in (sum_buf', sumvar', area)))
      else (sum_buf, sumvar, area))"


subsection \<open>Iteration, remainders and buffers\<close>

text \<open>
  A loop \<^verbatim>\<open>for (i = lo; i < hi; i++) body\<close> whose body does not change \<open>i\<close> is
  \<open>for_loop lo hi body\<close>. A pointer that is set at the start of a row and incremented
  once per pixel, such as \<^verbatim>\<open>datat\<close>, is the index of the element it points to: at column
  \<open>ix\<close> that index is \<open>pos + (ix - xmin)\<close>. A buffer is a function from element indices
  to elements; composed with its converter it yields the pixel value at an index.
\<close>

function for_loop :: "int \<Rightarrow> int \<Rightarrow> (int \<Rightarrow> 's \<Rightarrow> 's) \<Rightarrow> 's \<Rightarrow> 's" where
  "for_loop i hi body s = (if i < hi then for_loop (i + 1) hi body (body i s) else s)"
  by pat_completeness auto
termination
  by (relation "measure (\<lambda>(i, hi, body, s). nat (hi - i))") auto

declare for_loop.simps [simp del]

definition c_rem :: "int \<Rightarrow> int \<Rightarrow> int option" where
  \<comment> \<open>the C operator \<^verbatim>\<open>%\<close> on two \<^verbatim>\<open>int\<close> operands: the remainder has the sign of the
      dividend; undefined for a zero divisor and when the quotient overflows\<close>
  "c_rem a b = (if b = 0 \<or> (a = - (2 ^ 31) \<and> b = - 1) then None
                else Some (sgn a * (\<bar>a\<bar> mod \<bar>b\<bar>)))"

definition fmod :: "real \<Rightarrow> real \<Rightarrow> real" where
  \<comment> \<open>the C library function for a non-zero second argument\<close>
  "fmod a b = a - of_int (c_trunc (a / b)) * b"

definition memset0 :: "real list \<Rightarrow> int \<Rightarrow> real list" where
  \<comment> \<open>\<^verbatim>\<open>memset(a, 0, n*sizeof(double))\<close> on an array that has at least \<open>n\<close> elements\<close>
  "memset0 a n = replicate (min (nat n) (length a)) 0 @ drop (nat n) a"

definition row_pos :: "int \<Rightarrow> int \<Rightarrow> int \<Rightarrow> int \<Rightarrow> int option" where
  \<comment> \<open>\<^verbatim>\<open>pos = (iy%h) * w + xmin\<close> in \<^verbatim>\<open>sep_sum_circann_multi\<close> and \<^verbatim>\<open>sep_kron_radius\<close>: the
      right-hand side is computed in \<^verbatim>\<open>int\<close> before it is stored in the \<^verbatim>\<open>long\<close>\<close>
  "row_pos w h xmin iy =
     Option.bind (c_rem iy h) (\<lambda>m. Option.bind (int_mul m w) (\<lambda>p. int_add p xmin))"

definition set_ellipse_row_pos :: "int \<Rightarrow> int \<Rightarrow> int \<Rightarrow> int option" where
  \<comment> \<open>\<^verbatim>\<open>arrt = arr + (yi*w + xmin)\<close> in \<^verbatim>\<open>sep_set_ellipse\<close>: no remainder is taken\<close>
  "set_ellipse_row_pos w xmin yi = Option.bind (int_mul yi w) (\<lambda>p. int_add p xmin)"

subsection \<open>Multi-annulus summation (\<^verbatim>\<open>sep_sum_circann_multi\<close>)\<close>

text \<open>
  The variables that the pixel scan changes: the four output arrays, the flag word, and
  the locals \<^verbatim>\<open>varpix\<close> and \<^verbatim>\<open>ismasked\<close>, which keep their value from one pixel to the
  next.
\<close>

record scan_state =
  s_sum :: "real list"
  s_sumvar :: "real list"
  s_area :: "real list"
  s_maskarea :: "real list"
  s_flag :: "16 word"
  s_varpix :: real
  s_ismasked :: bool

text \<open>
  What the scan reads and does not change. \<open>cx_data\<close> is \<^verbatim>\<open>convert\<close> applied to the
  element of \<^verbatim>\<open>data\<close> at an index; \<open>cx_errarray\<close> is \<^verbatim>\<open>econvert\<close> on \<^verbatim>\<open>error\<close> when
  \<^verbatim>\<open>errisarray\<close> is set and \<open>None\<close> otherwise; \<open>cx_mask\<close> is \<^verbatim>\<open>mconvert\<close> on \<^verbatim>\<open>mask\<close>, or
  \<open>None\<close> when \<^verbatim>\<open>mask\<close> is \<^verbatim>\<open>NULL\<close>. The other fields are the variables of the same name.
\<close>

record ctx =
  cx_data :: "int \<Rightarrow> real"
  cx_errarray :: "(int \<Rightarrow> real) option"
  cx_mask :: "(int \<Rightarrow> real) option"
  cx_errisstd :: bool
  cx_maskthresh :: real
  cx_w :: int
  cx_h :: int
  cx_x :: real
  cx_y :: real
  cx_n :: int
  cx_subpix :: int
  cx_scale :: real
  cx_scale2 :: real
  cx_offset :: real
  cx_r_out2 :: real
  cx_step :: real
  cx_stepdens :: real
  cx_prevbinmargin :: real
  cx_nextbinmargin :: real

definition add_at :: "real list \<Rightarrow> int \<Rightarrow> real \<Rightarrow> real list" where
  \<comment> \<open>\<^verbatim>\<open>a[j] += v\<close> for an index \<open>j\<close> that is not negative\<close>
  "add_at a j v = a[nat j := a ! nat j + v]"

text \<open>
  The block \<^verbatim>\<open>if (j < n) { ... }\<close>, which the source has twice: with the weight
  \<^verbatim>\<open>scale2\<close> for a sub-cell and with the weight \<open>1.0\<close> for a whole pixel. The test lets a
  negative \<open>j\<close> through, with which the arrays are written before their first element:
  \<open>None\<close>.
\<close>

definition accumulate :: "ctx \<Rightarrow> int \<Rightarrow> real \<Rightarrow> real \<Rightarrow> scan_state \<Rightarrow> scan_state option" where
  "accumulate c j wt pix st =
     (if j < cx_n c then
        (if j < 0 then None
         else
           (let st = (if s_ismasked st
                      then st\<lparr>s_maskarea := add_at (s_maskarea st) j wt\<rparr>
                      else st\<lparr>s_sum := add_at (s_sum st) j (wt * pix),
                              s_sumvar := add_at (s_sumvar st) j (wt * s_varpix st)\<rparr>)
            in Some (st\<lparr>s_area := add_at (s_area st) j wt\<rparr>)))
      else Some st)"

text \<open>
  The statements \<^verbatim>\<open>for (sx=subpix; sx--; dx1+=scale)\<close> and \<^verbatim>\<open>for (sy=subpix; sy--; dy+=scale)\<close>:
  the first argument after the context is the number of iterations left.
\<close>

fun sx_loop :: "ctx \<Rightarrow> nat \<Rightarrow> real \<Rightarrow> real \<Rightarrow> real \<Rightarrow> scan_state \<Rightarrow> scan_state option" where
  "sx_loop c 0 dx1 dy2 pix st = Some st"
| "sx_loop c (Suc sx) dx1 dy2 pix st =
     (case c_int (sqrt (dx1 * dx1 + dy2) * cx_stepdens c) of
        None \<Rightarrow> None
      | Some j \<Rightarrow>
          (case accumulate c j (cx_scale2 c) pix st of
             None \<Rightarrow> None
           | Some st' \<Rightarrow> sx_loop c sx (dx1 + cx_scale c) dy2 pix st'))"

fun sy_loop :: "ctx \<Rightarrow> nat \<Rightarrow> real \<Rightarrow> real \<Rightarrow> real \<Rightarrow> scan_state \<Rightarrow> scan_state option" where
  "sy_loop c 0 dx dy pix st = Some st"
| "sy_loop c (Suc sy) dx dy pix st =
     (case sx_loop c (nat (cx_subpix c)) dx (dy * dy) pix st of
        None \<Rightarrow> None
      | Some st' \<Rightarrow> sy_loop c sy dx (dy + cx_scale c) pix st')"

text \<open>
  The body of the loop over the pixels of a row, for the pixel in column \<open>ix\<close> of row
  \<open>iy\<close>, stored at index \<open>idx\<close>. With \<open>step = 0\<close> (that is \<open>rmax = 0\<close>) the C code has
  \<^verbatim>\<open>stepdens = 1.0/0\<close> and \<^verbatim>\<open>fmod(rpix, 0)\<close>: in IEEE arithmetic \<^verbatim>\<open>d\<close> is a NaN, both
  comparisons fail, and \<^verbatim>\<open>(int)(rpix*stepdens)\<close> converts an infinity or a NaN, which is
  undefined. The result is \<open>None\<close> then, as it is when a bin index is not a value of
  \<^verbatim>\<open>int\<close>.
\<close>

definition circann_pixel :: "ctx \<Rightarrow> int \<Rightarrow> int \<Rightarrow> int \<Rightarrow> scan_state \<Rightarrow> scan_state option" where
  "circann_pixel c iy idx ix st =
     (let dx = of_int ix - cx_x c;
          dy = of_int iy - cx_y c;
          rpix2 = dx * dx + dy * dy
      in if rpix2 < cx_r_out2 c then
           (let pix = cx_data c idx;
                st = (case cx_errarray c of
                        None \<Rightarrow> st
                      | Some e \<Rightarrow>
                          st\<lparr>s_varpix := (let v = e idx in if cx_errisstd c then v * v else v)\<rparr>);
                st = (case cx_mask c of
                        None \<Rightarrow> st
                      | Some m \<Rightarrow>
                          if m idx > cx_maskthresh c
                          then st\<lparr>s_flag := s_flag st OR SEP_APER_HASMASKED, s_ismasked := True\<rparr>
                          else st\<lparr>s_ismasked := False\<rparr>);
                rpix = sqrt rpix2
            in if cx_step c = 0 then None
               else
                 (let d = fmod rpix (cx_step c)
                  in if d < cx_prevbinmargin c \<or> d > cx_nextbinmargin c
                     then sy_loop c (nat (cx_subpix c)) (dx + cx_offset c) (dy + cx_offset c)
                            pix st
                     else (case c_int (rpix * cx_stepdens c) of
                             None \<Rightarrow> None
                           | Some j \<Rightarrow> accumulate c j 1 pix st)))
         else Some st)"

definition circann_row :: "ctx \<Rightarrow> int \<Rightarrow> int \<Rightarrow> int \<Rightarrow> scan_state option \<Rightarrow> scan_state option" where
  "circann_row c xmin xmax iy so =
     Option.bind so (\<lambda>st.
       Option.bind (row_pos (cx_w c) (cx_h c) xmin iy) (\<lambda>pos.
         for_loop xmin xmax
           (\<lambda>ix so. Option.bind so (circann_pixel c iy (pos + (ix - xmin)) ix)) (Some st)))"

definition circann_scan ::
  "ctx \<Rightarrow> int \<Rightarrow> int \<Rightarrow> int \<Rightarrow> int \<Rightarrow> scan_state \<Rightarrow> scan_state option" where
  "circann_scan c xmin xmax ymin ymax st = for_loop ymin ymax (circann_row c xmin xmax) (Some st)"

fun poisson_loop :: "nat \<Rightarrow> real list \<Rightarrow> real list \<Rightarrow> real \<Rightarrow> real list" where
  "poisson_loop 0 sum_buf sumvar gain = sumvar"
| "poisson_loop (Suc j) sum_buf sumvar gain =
     poisson_loop j sum_buf
       (if sum_buf ! j > 0 then sumvar[j := sumvar ! j + sum_buf ! j / gain] else sumvar) gain"

record outputs =
  o_sum :: "real list"
  o_sumvar :: "real list"
  o_area :: "real list"
  o_maskarea :: "real list"
  o_flag :: "16 word"

text \<open>
  Modelled from the spec: \<^verbatim>\<open>get_converter\<close> is defined in a source file that is missing.
  By the spec, pixel converter resolution takes an encoding tag and returns a function
  from a raw element to a floating-point value, and fails with the unsupported pixel
  format status for a tag it does not recognise. It is the first argument of the
  operations that call it: a function from the tag to the returned status and the
  converter.

  The result of \<open>sep_sum_circann_multi\<close> is the returned status with the contents of the
  output arrays and of \<^verbatim>\<open>*flag\<close> at the return, which the last five arguments give at the
  call; it is \<open>None\<close> when the box or the scan is undefined. The arrays \<^verbatim>\<open>sum\<close> and \<^verbatim>\<open>mask\<close> are called
  \<open>sum_buf\<close> and \<open>mask_buf\<close>.
\<close>

definition sep_sum_circann_multi ::
  "(int \<Rightarrow> status \<times> ('e \<Rightarrow> real)) \<Rightarrow> (int \<Rightarrow> 'e) \<Rightarrow> (int \<Rightarrow> 'e) option \<Rightarrow> (int \<Rightarrow> 'e) option
     \<Rightarrow> int \<Rightarrow> int \<Rightarrow> int \<Rightarrow> int \<Rightarrow> int \<Rightarrow> real \<Rightarrow> real \<Rightarrow> 16 word
     \<Rightarrow> real \<Rightarrow> real \<Rightarrow> real \<Rightarrow> int \<Rightarrow> int
     \<Rightarrow> real list \<Rightarrow> real list \<Rightarrow> real list \<Rightarrow> real list \<Rightarrow> 16 word
     \<Rightarrow> (status \<times> outputs) option" where
  "sep_sum_circann_multi get_converter data error mask_buf dtype edtype mdtype w h
       maskthresh gain inflag x y rmax n subpix sum_buf sumvar area maskarea flag =
     (if rmax < 0 \<or> n < 1 then
        Some (ILLEGAL_APER_PARAMS,
              \<lparr>o_sum = sum_buf, o_sumvar = sumvar, o_area = area, o_maskarea = maskarea,
               o_flag = flag\<rparr>)
      else if subpix < 1 then
        Some (ILLEGAL_SUBPIX,
              \<lparr>o_sum = sum_buf, o_sumvar = sumvar, o_area = area, o_maskarea = maskarea,
               o_flag = flag\<rparr>)
      else
        let sum_buf = memset0 sum_buf n;
            sumvar = memset0 sumvar n;
            area = memset0 area n;
            maskarea = (if mask_buf \<noteq> None then memset0 maskarea n else maskarea);
            flag = 0;
            varpix = 0;
            scale = 1 / of_int subpix;
            scale2 = scale * scale;
            offset = 0.5 * (scale - 1);
            r_out = rmax + 1.5;
            r_out2 = r_out * r_out;
            step = rmax / of_int n;
            stepdens = 1 / step;
            prevbinmargin = 0.7072;
            nextbinmargin = step - 0.7072;
            early = \<lparr>o_sum = sum_buf, o_sumvar = sumvar, o_area = area, o_maskarea = maskarea,
                     o_flag = flag\<rparr>;
            (status, convert) = get_converter dtype
        in if status \<noteq> RETURN_OK then Some (status, early)
           else
             let (status, econvert) = (if error \<noteq> None then get_converter edtype
                                       else (status, convert))
             in if status \<noteq> RETURN_OK then Some (status, early)
                else
                  let (status, mconvert) = (if mask_buf \<noteq> None then get_converter mdtype
                                            else (status, convert))
                  in if status \<noteq> RETURN_OK then Some (status, early)
                     else
                       let errisarray = (inflag AND SEP_ERROR_IS_ARRAY \<noteq> 0 \<and> error \<noteq> None);
                           errisstd = (inflag AND SEP_ERROR_IS_VAR = 0);
                           varpix = (case error of
                                       None \<Rightarrow> varpix
                                     | Some e \<Rightarrow>
                                         if errisarray then varpix
                                         else (let v = econvert (e 0)
                                               in if errisstd then v * v else v));
                           c = \<lparr>cx_data = convert \<circ> data,
                                cx_errarray = (case error of
                                                 None \<Rightarrow> None
                                               | Some e \<Rightarrow> if errisarray then Some (econvert \<circ> e)
                                                           else None),
                                cx_mask = map_option (\<lambda>m. mconvert \<circ> m) mask_buf,
                                cx_errisstd = errisstd, cx_maskthresh = maskthresh,
                                cx_w = w, cx_h = h, cx_x = x, cx_y = y, cx_n = n,
                                cx_subpix = subpix, cx_scale = scale, cx_scale2 = scale2,
                                cx_offset = offset, cx_r_out2 = r_out2, cx_step = step,
                                cx_stepdens = stepdens, cx_prevbinmargin = prevbinmargin,
                                cx_nextbinmargin = nextbinmargin\<rparr>
                       in case boxextent x y r_out r_out w h flag of
                            None \<Rightarrow> None
                          | Some (xmin, xmax, ymin, ymax, flag) \<Rightarrow>
                              (case circann_scan c xmin xmax ymin ymax
                                      \<lparr>s_sum = sum_buf, s_sumvar = sumvar, s_area = area,
                                       s_maskarea = maskarea, s_flag = flag, s_varpix = varpix,
                                       s_ismasked = False\<rparr> of
                                 None \<Rightarrow> None
                               | Some st \<Rightarrow>
                                   let (sum_buf, sumvar, area) =
                                         correct_for_masked (mask_buf \<noteq> None) inflag (nat n)
                                           (s_sum st) (s_sumvar st) (s_area st) (s_maskarea st);
                                       sumvar = (if gain > 0
                                                 then poisson_loop (nat n) sum_buf sumvar gain
                                                 else sumvar)
                                   in Some (status,
                                            \<lparr>o_sum = sum_buf, o_sumvar = sumvar, o_area = area,
                                             o_maskarea = s_maskarea st, o_flag = s_flag st\<rparr>)))"

subsection \<open>Kron radius (\<^verbatim>\<open>sep_kron_radius\<close>)\<close>

text \<open>
  Modelled from the spec: the header \<^verbatim>\<open>sepcore.h\<close> that defines \<^verbatim>\<open>BIG\<close> is missing. The spec
  calls \<open>- BIG\<close> the sentinel floor below which a pixel value marks a bad pixel; the value
  is the one of the library's header.
\<close>

definition BIG :: real where "BIG = 10 ^ 30"

text \<open>
  The accumulators of the scan. The quadratic form \<^verbatim>\<open>rpix2\<close> is negative for some pixels
  when the coefficients do not describe an ellipse, which \<^verbatim>\<open>sep_kron_radius\<close> does not
  check; \<^verbatim>\<open>sqrt(rpix2)\<close> is then a NaN and so is \<^verbatim>\<open>r1\<close> from there on. \<open>k_r1\<close> is \<open>None\<close>
  for a NaN, on which every comparison is false.
\<close>

record kron_state =
  k_r1 :: "real option"
  k_v1 :: real
  k_area :: real
  k_flag :: "16 word"

definition kron_pixel ::
  "(int \<Rightarrow> real) \<Rightarrow> (int \<Rightarrow> real) option \<Rightarrow> real \<Rightarrow> real \<Rightarrow> real \<Rightarrow> real \<Rightarrow> real \<Rightarrow> real \<Rightarrow> real
     \<Rightarrow> int \<Rightarrow> int \<Rightarrow> int \<Rightarrow> kron_state \<Rightarrow> kron_state" where
  "kron_pixel pixval maskval maskthresh x y cxx cyy cxy r2 iy idx ix st =
     (let dx = of_int ix - x;
          dy = of_int iy - y;
          rpix2 = cxx * dx * dx + cyy * dy * dy + cxy * dx * dy
      in if rpix2 \<le> r2 then
           (let pix = pixval idx
            in if pix < - BIG \<or> (case maskval of None \<Rightarrow> False | Some m \<Rightarrow> m idx > maskthresh)
               then st\<lparr>k_flag := k_flag st OR SEP_APER_HASMASKED\<rparr>
               else st\<lparr>k_r1 := (if rpix2 < 0 then None
                                 else map_option (\<lambda>r1. r1 + sqrt rpix2 * pix) (k_r1 st)),
                       k_v1 := k_v1 st + pix,
                       k_area := k_area st + 1\<rparr>)
         else st)"

definition kron_row ::
  "(int \<Rightarrow> real) \<Rightarrow> (int \<Rightarrow> real) option \<Rightarrow> int \<Rightarrow> int \<Rightarrow> real \<Rightarrow> real \<Rightarrow> real \<Rightarrow> real \<Rightarrow> real
     \<Rightarrow> real \<Rightarrow> real \<Rightarrow> int \<Rightarrow> int \<Rightarrow> int \<Rightarrow> kron_state option \<Rightarrow> kron_state option" where
  "kron_row pixval maskval w h maskthresh x y cxx cyy cxy r2 xmin xmax iy so =
     Option.bind so (\<lambda>st.
       Option.bind (row_pos w h xmin iy) (\<lambda>pos.
         Some (for_loop xmin xmax
                 (\<lambda>ix. kron_pixel pixval maskval maskthresh x y cxx cyy cxy r2 iy
                         (pos + (ix - xmin)) ix)
                 st)))"

text \<open>
  The result is the returned status with the contents of \<^verbatim>\<open>*kronrad\<close> (\<open>None\<close> for a NaN)
  and of \<^verbatim>\<open>*flag\<close> at the return; the argument \<open>kronrad\<close> is the content at the call. The
  whole is \<open>None\<close> when the box or a row offset is undefined.
\<close>

definition sep_kron_radius ::
  "(int \<Rightarrow> status \<times> ('e \<Rightarrow> real)) \<Rightarrow> (int \<Rightarrow> 'e) \<Rightarrow> (int \<Rightarrow> 'e) option \<Rightarrow> int \<Rightarrow> int
     \<Rightarrow> int \<Rightarrow> int \<Rightarrow> real \<Rightarrow> real \<Rightarrow> real \<Rightarrow> real \<Rightarrow> real \<Rightarrow> real \<Rightarrow> real
     \<Rightarrow> real option \<Rightarrow> (status \<times> real option \<times> 16 word) option" where
  "sep_kron_radius get_converter data mask_buf dtype mdtype w h maskthresh x y cxx cyy cxy r kronrad =
     (let r2 = r * r;
          flag = 0;
          (status, convert) = get_converter dtype
      in if status \<noteq> RETURN_OK then Some (status, kronrad, flag)
         else
           let (status, mconvert) = (if mask_buf \<noteq> None then get_converter mdtype
                                     else (status, convert))
           in if status \<noteq> RETURN_OK then Some (status, kronrad, flag)
              else
                case boxextent_ellipse x y cxx cyy cxy r w h flag of
                  None \<Rightarrow> None
                | Some (xmin, xmax, ymin, ymax, flag) \<Rightarrow>
                    (case for_loop ymin ymax
                            (kron_row (convert \<circ> data) (map_option (\<lambda>m. mconvert \<circ> m) mask_buf)
                               w h maskthresh x y cxx cyy cxy r2 xmin xmax)
                            (Some \<lparr>k_r1 = Some 0, k_v1 = 0, k_area = 0, k_flag = flag\<rparr>) of
                       None \<Rightarrow> None
                     | Some st \<Rightarrow>
                         if k_area st = 0 then
                           Some (RETURN_OK, Some 0, k_flag st OR SEP_APER_ALLMASKED)
                         else if (case k_r1 st of None \<Rightarrow> False | Some r1 \<Rightarrow> r1 \<le> 0)
                                 \<or> k_v1 st \<le> 0 then
                           Some (RETURN_OK, Some 0, k_flag st OR SEP_APER_NONPOSITIVE)
                         else
                           Some (RETURN_OK, map_option (\<lambda>r1. r1 / k_v1 st) (k_r1 st),
                                 k_flag st)))"

subsection \<open>Ellipse rasterizer (\<^verbatim>\<open>sep_set_ellipse\<close>)\<close>

text \<open>
  The array \<^verbatim>\<open>arr\<close> is a function from element indices to bytes, and the result is the
  array at the return, or \<open>None\<close> when the box or a row offset is undefined.
\<close>

definition set_ellipse_row ::
  "int \<Rightarrow> real \<Rightarrow> real \<Rightarrow> real \<Rightarrow> real \<Rightarrow> real \<Rightarrow> real \<Rightarrow> 8 word \<Rightarrow> int \<Rightarrow> int \<Rightarrow> int
     \<Rightarrow> (int \<Rightarrow> 8 word) option \<Rightarrow> (int \<Rightarrow> 8 word) option" where
  "set_ellipse_row w x y cxx cyy cxy r2 val xmin xmax yi arro =
     Option.bind arro (\<lambda>arr.
       Option.bind (set_ellipse_row_pos w xmin yi) (\<lambda>pos.
         let dy = of_int yi - y;
             dy2 = dy * dy
         in Some (for_loop xmin xmax
                    (\<lambda>xi arr. let dx = of_int xi - x
                              in if cxx * dx * dx + cyy * dy2 + cxy * dx * dy \<le> r2
                                 then arr(pos + (xi - xmin) := val) else arr)
                    arr)))"

definition sep_set_ellipse ::
  "(int \<Rightarrow> 8 word) \<Rightarrow> int \<Rightarrow> int \<Rightarrow> real \<Rightarrow> real \<Rightarrow> real \<Rightarrow> real \<Rightarrow> real \<Rightarrow> real \<Rightarrow> 8 word
     \<Rightarrow> (int \<Rightarrow> 8 word) option" where
  "sep_set_ellipse arr w h x y cxx cyy cxy r val =
     (let flag = 0;
          r2 = r * r
      in case boxextent_ellipse x y cxx cyy cxy r w h flag of
           None \<Rightarrow> None
         | Some (xmin, xmax, ymin, ymax, flag) \<Rightarrow>
             for_loop ymin ymax (set_ellipse_row w x y cxx cyy cxy r2 val xmin xmax) (Some arr))"

subsection \<open>Notions used to state the properties\<close>

text \<open>
  The status that the calls of \<^verbatim>\<open>get_converter\<close> leave: that of the first call that fails,
  where the converter of the error buffer and of the mask buffer is only resolved when
  the buffer is supplied.
\<close>

definition converters_status ::
  "(int \<Rightarrow> status \<times> ('e \<Rightarrow> real)) \<Rightarrow> bool \<Rightarrow> bool \<Rightarrow> int \<Rightarrow> int \<Rightarrow> int \<Rightarrow> status" where
  "converters_status get_converter has_error has_mask dtype edtype mdtype =
     (if fst (get_converter dtype) \<noteq> RETURN_OK then fst (get_converter dtype)
      else if has_error \<and> fst (get_converter edtype) \<noteq> RETURN_OK then fst (get_converter edtype)
      else if has_mask \<and> fst (get_converter mdtype) \<noteq> RETURN_OK then fst (get_converter mdtype)
      else RETURN_OK)"

text \<open>
  The context that \<^verbatim>\<open>sep_sum_circann_multi\<close> sets up for its scan, as a function of the
  pixel readers and the parameters of the call.
\<close>

definition scan_ctx ::
  "(int \<Rightarrow> real) \<Rightarrow> (int \<Rightarrow> real) option \<Rightarrow> (int \<Rightarrow> real) option \<Rightarrow> bool \<Rightarrow> real
     \<Rightarrow> int \<Rightarrow> int \<Rightarrow> real \<Rightarrow> real \<Rightarrow> real \<Rightarrow> int \<Rightarrow> int \<Rightarrow> ctx" where
  "scan_ctx pixval errarray maskval errisstd maskthresh w h x y rmax n subpix =
     \<lparr>cx_data = pixval, cx_errarray = errarray, cx_mask = maskval,
      cx_errisstd = errisstd, cx_maskthresh = maskthresh,
      cx_w = w, cx_h = h, cx_x = x, cx_y = y, cx_n = n, cx_subpix = subpix,
      cx_scale = 1 / of_int subpix,
      cx_scale2 = 1 / of_int subpix * (1 / of_int subpix),
      cx_offset = 0.5 * (1 / of_int subpix - 1),
      cx_r_out2 = (rmax + 1.5) * (rmax + 1.5),
      cx_step = rmax / of_int n,
      cx_stepdens = 1 / (rmax / of_int n),
      cx_prevbinmargin = 0.7072,
      cx_nextbinmargin = rmax / of_int n - 0.7072\<rparr>"

text \<open>The pixels \<open>(ix, iy)\<close> of a box in the order of the scan, row by row.\<close>

definition box_pixels :: "int \<Rightarrow> int \<Rightarrow> int \<Rightarrow> int \<Rightarrow> (int \<times> int) list" where
  "box_pixels xmin xmax ymin ymax =
     concat (map (\<lambda>iy. map (\<lambda>ix. (ix, iy)) [xmin..xmax - 1]) [ymin..ymax - 1])"

text \<open>
  The element of a window of \<open>h\<close> rows of \<open>w\<close> pixels that holds the pixel \<open>(ix, iy)\<close>:
  column \<open>ix\<close> of the row \<open>iy mod h\<close>.
\<close>

definition pixel_index :: "int \<Rightarrow> int \<Rightarrow> int \<times> int \<Rightarrow> int" where
  "pixel_index w h p = (snd p mod h) * w + fst p"

text \<open>
  The weight with which a pixel contributes to bin \<open>j\<close>, in the words of the
  specification: a pixel whose centre is at distance \<open>rpix\<close> with
  \<open>rpix\<^sup>2 < (rmax + 1.5)\<^sup>2\<close> counts with weight 1 in bin \<open>floor (rpix / (rmax / n))\<close> when
  \<open>fmod rpix (rmax / n)\<close> lies in \<open>[0.7072, rmax / n - 0.7072]\<close>; otherwise each of its
  \<open>subpix \<times> subpix\<close> sub-cells counts with weight \<open>1 / subpix\<^sup>2\<close> in the bin of the
  distance of the sub-cell's centre. Other pixels do not contribute.
\<close>

definition bin_of :: "real \<Rightarrow> int \<Rightarrow> real \<Rightarrow> int" where
  "bin_of rmax n radius = \<lfloor>radius / (rmax / of_int n)\<rfloor>"

definition subcell_centre :: "int \<Rightarrow> real \<Rightarrow> nat \<Rightarrow> real" where
  \<comment> \<open>the centre of sub-cell \<open>k\<close> of a pixel that extends from \<open>d - 1/2\<close> to \<open>d + 1/2\<close>\<close>
  "subcell_centre subpix d k = d - 1 / 2 + (of_nat k + 1 / 2) / of_int subpix"

definition pixel_weight :: "real \<Rightarrow> real \<Rightarrow> real \<Rightarrow> int \<Rightarrow> int \<Rightarrow> int \<times> int \<Rightarrow> nat \<Rightarrow> real" where
  "pixel_weight x y rmax n subpix p j =
     (let dx = of_int (fst p) - x;
          dy = of_int (snd p) - y;
          rpix = sqrt (dx\<^sup>2 + dy\<^sup>2)
      in if dx\<^sup>2 + dy\<^sup>2 < (rmax + 1.5)\<^sup>2 then
           (if 0.7072 \<le> fmod rpix (rmax / of_int n) \<and>
               fmod rpix (rmax / of_int n) \<le> rmax / of_int n - 0.7072
            then (if bin_of rmax n rpix = int j then 1 else 0)
            else (\<Sum>ky\<leftarrow>[0..<nat subpix]. \<Sum>kx\<leftarrow>[0..<nat subpix].
                    if bin_of rmax n (sqrt ((subcell_centre subpix dx kx)\<^sup>2
                                            + (subcell_centre subpix dy ky)\<^sup>2)) = int j
                    then 1 / (of_int subpix)\<^sup>2 else 0))
         else 0)"

text \<open>
  The four accumulators of a bin, and the factor with which a pixel enters each of
  them beside its weight: the area counts every pixel, the masked area the masked
  pixels, the sum and the variance the unmasked ones, with their value and variance.
\<close>

datatype meter = Area | Maskarea | Sum | Sumvar

fun meter_val :: "meter \<Rightarrow> scan_state \<Rightarrow> nat \<Rightarrow> real" where
  "meter_val Area st j = s_area st ! j"
| "meter_val Maskarea st j = s_maskarea st ! j"
| "meter_val Sum st j = s_sum st ! j"
| "meter_val Sumvar st j = s_sumvar st ! j"

fun meter_factor :: "meter \<Rightarrow> bool \<Rightarrow> real \<Rightarrow> real \<Rightarrow> real" where
  "meter_factor Area masked pix varpix = 1"
| "meter_factor Maskarea masked pix varpix = (if masked then 1 else 0)"
| "meter_factor Sum masked pix varpix = (if masked then 0 else pix)"
| "meter_factor Sumvar masked pix varpix = (if masked then 0 else varpix)"

definition pixel_masked :: "ctx \<Rightarrow> int \<Rightarrow> bool" where
  "pixel_masked c idx = (case cx_mask c of None \<Rightarrow> False | Some m \<Rightarrow> m idx > cx_maskthresh c)"

definition pixel_varpix :: "ctx \<Rightarrow> real \<Rightarrow> int \<Rightarrow> real" where
  \<comment> \<open>the variance of a pixel: from the error array, or the scalar \<open>v0\<close> set before the scan\<close>
  "pixel_varpix c v0 idx =
     (case cx_errarray c of
        None \<Rightarrow> v0
      | Some e \<Rightarrow> (let v = e idx in if cx_errisstd c then v * v else v))"

definition bins_ok :: "int \<Rightarrow> scan_state \<Rightarrow> bool" where
  \<comment> \<open>each output array has room for the \<open>n\<close> bins\<close>
  "bins_ok n st \<longleftrightarrow>
     nat n \<le> length (s_sum st) \<and> nat n \<le> length (s_sumvar st) \<and>
     nat n \<le> length (s_area st) \<and> nat n \<le> length (s_maskarea st)"

text \<open>
  For the Kron radius: the quadratic form of a pixel, and the pixels that the estimator
  counts, which lie in the ellipse, are not below the bad-pixel floor and are not
  masked.
\<close>

definition kron_rpix2 :: "real \<Rightarrow> real \<Rightarrow> real \<Rightarrow> real \<Rightarrow> real \<Rightarrow> int \<times> int \<Rightarrow> real" where
  "kron_rpix2 x y cxx cyy cxy p =
     (let dx = of_int (fst p) - x;
          dy = of_int (snd p) - y
      in cxx * dx * dx + cyy * dy * dy + cxy * dx * dy)"

definition kron_counted ::
  "(int \<Rightarrow> real) \<Rightarrow> (int \<Rightarrow> real) option \<Rightarrow> real \<Rightarrow> real \<Rightarrow> real \<Rightarrow> real \<Rightarrow> real \<Rightarrow> real \<Rightarrow> real
     \<Rightarrow> int \<Rightarrow> int \<Rightarrow> int \<times> int \<Rightarrow> bool" where
  "kron_counted pixval maskval maskthresh x y cxx cyy cxy r w h p \<longleftrightarrow>
     kron_rpix2 x y cxx cyy cxy p \<le> r * r \<and>
     \<not> pixval (pixel_index w h p) < - BIG \<and>
     \<not> (case maskval of None \<Rightarrow> False | Some m \<Rightarrow> m (pixel_index w h p) > maskthresh)"

subsection \<open>Round trip\<close>

text \<open>The round trip of claim C6: axes to coefficients and back; \<open>None\<close> when either step fails.\<close>

definition ellipse_roundtrip :: "real \<Rightarrow> real \<Rightarrow> real \<Rightarrow> (real \<times> real \<times> real) option" where
  "ellipse_roundtrip a b theta =
     (case sep_ellipse_coeffs a b theta of
        None \<Rightarrow> None
      | Some (cxx, cyy, cxy) \<Rightarrow>
          (case sep_ellipse_axes cxx cyy cxy of Inl e \<Rightarrow> None | Inr r \<Rightarrow> Some r))"


section \<open>Properties\<close>

subsection \<open>Ellipse parameters\<close>

lemma disc_less:
  assumes "cxx * cyy - cxy * cxy / 4 > 0" "cxx + cyy > 0"
  shows "sqrt ((cxx - cyy) * (cxx - cyy) + cxy * cxy) < cxx + cyy"
proof -
  have "(cxx - cyy) * (cxx - cyy) + cxy * cxy < (cxx + cyy)\<^sup>2"
    using assms(1) by (simp add: power2_eq_square algebra_simps)
  then have "sqrt ((cxx - cyy) * (cxx - cyy) + cxy * cxy) < sqrt ((cxx + cyy)\<^sup>2)"
    by (simp only: real_sqrt_less_iff)
  then show ?thesis using assms(2) by simp
qed

lemma arctan_half: "- (pi / 4) < arctan x / 2 \<and> arctan x / 2 < pi / 4"
  using arctan_lbound [of x] arctan_ubound [of x] by simp

text \<open>
  C5. \<open>sep_ellipse_axes\<close> returns \<open>NON_ELLIPSE_PARAMS\<close> exactly when
  \<open>cxx * cyy - cxy\<^sup>2 / 4 \<le> 0\<close> or \<open>cxx + cyy \<le> 0\<close>, and it has no other failure;
  otherwise it succeeds with \<open>a = sqrt (2 / (p - t))\<close>, \<open>b = sqrt (2 / (p + t))\<close>
  for \<open>p = cxx + cyy\<close> and \<open>t = sqrt ((cxx - cyy)\<^sup>2 + cxy\<^sup>2)\<close>, with \<open>b \<le> a\<close>, and a
  position angle in \<open>(- pi / 2, pi / 2]\<close>.
\<close>

theorem sep_ellipse_axes_spec:
  "(sep_ellipse_axes cxx cyy cxy = Inl NON_ELLIPSE_PARAMS
      \<longleftrightarrow> cxx * cyy - cxy\<^sup>2 / 4 \<le> 0 \<or> cxx + cyy \<le> 0) \<and>
   (\<forall>e. sep_ellipse_axes cxx cyy cxy = Inl e \<longrightarrow> e = NON_ELLIPSE_PARAMS) \<and>
   (\<not> (cxx * cyy - cxy\<^sup>2 / 4 \<le> 0 \<or> cxx + cyy \<le> 0) \<longrightarrow>
      (\<exists>theta. sep_ellipse_axes cxx cyy cxy =
           Inr (sqrt (2 / (cxx + cyy - sqrt ((cxx - cyy)\<^sup>2 + cxy\<^sup>2))),
                sqrt (2 / (cxx + cyy + sqrt ((cxx - cyy)\<^sup>2 + cxy\<^sup>2))), theta)
         \<and> - (pi / 2) < theta \<and> theta \<le> pi / 2)
      \<and> sqrt (2 / (cxx + cyy + sqrt ((cxx - cyy)\<^sup>2 + cxy\<^sup>2)))
          \<le> sqrt (2 / (cxx + cyy - sqrt ((cxx - cyy)\<^sup>2 + cxy\<^sup>2))))"
proof (intro conjI impI allI)
  show "sep_ellipse_axes cxx cyy cxy = Inl NON_ELLIPSE_PARAMS
      \<longleftrightarrow> cxx * cyy - cxy\<^sup>2 / 4 \<le> 0 \<or> cxx + cyy \<le> 0"
    by (simp add: sep_ellipse_axes_def Let_def power2_eq_square)
next
  fix e assume "sep_ellipse_axes cxx cyy cxy = Inl e"
  then show "e = NON_ELLIPSE_PARAMS"
    by (simp add: sep_ellipse_axes_def Let_def split: if_splits)
next
  assume ok: "\<not> (cxx * cyy - cxy\<^sup>2 / 4 \<le> 0 \<or> cxx + cyy \<le> 0)"
  show "\<exists>theta. sep_ellipse_axes cxx cyy cxy =
           Inr (sqrt (2 / (cxx + cyy - sqrt ((cxx - cyy)\<^sup>2 + cxy\<^sup>2))),
                sqrt (2 / (cxx + cyy + sqrt ((cxx - cyy)\<^sup>2 + cxy\<^sup>2))), theta)
         \<and> - (pi / 2) < theta \<and> theta \<le> pi / 2"
    using ok arctan_half [of "cxy / (cxx - cyy)"] pi_gt_zero
    by (auto simp add: sep_ellipse_axes_def Let_def power2_eq_square)
next
  assume ok: "\<not> (cxx * cyy - cxy\<^sup>2 / 4 \<le> 0 \<or> cxx + cyy \<le> 0)"
  then have "sqrt ((cxx - cyy) * (cxx - cyy) + cxy * cxy) < cxx + cyy"
    using disc_less [of cxx cyy cxy] by (simp add: power2_eq_square)
  moreover have "0 \<le> sqrt ((cxx - cyy) * (cxx - cyy) + cxy * cxy)" by simp
  ultimately show "sqrt (2 / (cxx + cyy + sqrt ((cxx - cyy)\<^sup>2 + cxy\<^sup>2)))
          \<le> sqrt (2 / (cxx + cyy - sqrt ((cxx - cyy)\<^sup>2 + cxy\<^sup>2)))"
    by (simp add: power2_eq_square frac_le)
qed

theorem sep_ellipse_axes_spec_witness:
  "sep_ellipse_axes 1 (- 1) 0 = Inl NON_ELLIPSE_PARAMS \<and>
   (\<exists>theta. sep_ellipse_axes 1 4 0 = Inr (sqrt (2 / (1 + 4 - sqrt ((1 - 4)\<^sup>2 + 0\<^sup>2))),
        sqrt (2 / (1 + 4 + sqrt ((1 - 4)\<^sup>2 + 0\<^sup>2))), theta)
      \<and> - (pi / 2) < theta \<and> theta \<le> pi / 2)"
  using sep_ellipse_axes_spec [of 1 "- 1" 0] sep_ellipse_axes_spec [of 1 4 0]
  by simp

lemma half_arctan_tan:
  assumes "- pi < u" "u \<le> pi" "\<bar>u\<bar> \<noteq> pi / 2"
  shows "arctan (sin u / cos u) / 2 =
           (if u < - (pi / 2) then (u + pi) / 2 else if u < pi / 2 then u / 2 else (u - pi) / 2)"
proof -
  have t: "sin u / cos u = tan u" by (simp add: tan_def)
  consider "u < - (pi / 2)" | "- (pi / 2) < u" "u < pi / 2" | "pi / 2 < u"
    using assms(3) by fastforce
  then show ?thesis
  proof cases
    case 1
    have "arctan (tan (u + pi)) = u + pi"
      using 1 assms(1) by (intro arctan_tan) auto
    then show ?thesis using 1 by (simp add: t)
  next
    case 2
    then have "arctan (tan u) = u" by (intro arctan_tan) auto
    then show ?thesis using 2 by (simp add: t)
  next
    case 3
    have "tan (u - pi) = tan u" using tan_periodic_pi [of "u - pi"] by simp
    moreover have "arctan (tan (u - pi)) = u - pi"
      using 3 assms(2) by (intro arctan_tan) auto
    moreover have "\<not> u < - (pi / 2)" "\<not> u < pi / 2" using 3 pi_gt_zero by linarith+
    ultimately show ?thesis by (simp add: t)
  qed
qed

lemma cos_sign:
  assumes "- pi < u" "u \<le> pi" "\<bar>u\<bar> \<noteq> pi / 2"
  shows "(cos u < 0 \<longleftrightarrow> u < - (pi / 2) \<or> pi / 2 < u) \<and> cos u \<noteq> 0"
proof -
  consider "u < - (pi / 2)" | "- (pi / 2) < u" "u < pi / 2" | "pi / 2 < u"
    using assms(3) by fastforce
  then show ?thesis
  proof cases
    case 1
    have "0 < cos (u + pi)" using 1 assms(1) by (intro cos_gt_zero_pi) linarith+
    then have "cos u < 0" by simp
    then show ?thesis using 1 by simp
  next
    case 2
    then have "0 < cos u" by (rule cos_gt_zero_pi)
    moreover have "\<not> (u < - (pi / 2) \<or> pi / 2 < u)" using 2 by linarith
    ultimately show ?thesis by simp
  next
    case 3
    have "0 < cos (u - pi)" using 3 assms(2) by (intro cos_gt_zero_pi) linarith+
    then have "cos u < 0" by simp
    then show ?thesis using 3 by simp
  qed
qed

lemma sq_factor: "(c * D) * (c * D) + (s * D) * (s * D) = D * D * (s\<^sup>2 + c\<^sup>2)" for c :: real
  by (simp add: power2_eq_square algebra_simps)

lemma axes_of_rotated:
  assumes ab: "0 < b" "b < a"
    and th: "- (pi / 2) < theta" "theta \<le> pi / 2" "\<bar>theta\<bar> \<noteq> pi / 4"
    and D: "D = 1 / (a * a) - 1 / (b * b)"
    and p: "cxx + cyy = 1 / (a * a) + 1 / (b * b)"
    and q: "cxx - cyy = cos (2 * theta) * D"
    and c: "cxy = sin (2 * theta) * D"
  shows "sep_ellipse_axes cxx cyy cxy = Inr (a, b, theta)"
proof -
  have a2b2: "b * b < a * a" using ab by (simp add: mult_strict_mono)
  have Dneg: "D < 0" unfolding D using ab a2b2 by (simp add: frac_less2)
  have "(cxx - cyy) * (cxx - cyy) + cxy * cxy = D * D * ((sin (2 * theta))\<^sup>2 + (cos (2 * theta))\<^sup>2)"
    unfolding q c by (rule sq_factor)
  also have "\<dots> = D * D" by simp
  also have "\<dots> = D\<^sup>2" by (simp add: power2_eq_square)
  finally have "(cxx - cyy) * (cxx - cyy) + cxy * cxy = D\<^sup>2" .
  then have t: "sqrt ((cxx - cyy) * (cxx - cyy) + cxy * cxy) = - D"
    using Dneg by simp
  have pmt: "cxx + cyy - (- D) = 2 / (a * a)" and ppt: "cxx + cyy + (- D) = 2 / (b * b)"
    unfolding p D by simp_all
  have aa: "sqrt (2 / (2 / (a * a))) = a" and bb: "sqrt (2 / (2 / (b * b))) = b"
    using ab by simp_all
  have A: "sqrt (2 / (cxx + cyy - sqrt ((cxx - cyy) * (cxx - cyy) + cxy * cxy))) = a"
    unfolding t pmt by (rule aa)
  have B: "sqrt (2 / (cxx + cyy + sqrt ((cxx - cyy) * (cxx - cyy) + cxy * cxy))) = b"
    unfolding t ppt by (rule bb)
  have "4 * (cxx * cyy) = (cxx + cyy)\<^sup>2 - (cxx - cyy)\<^sup>2"
    by (simp add: power2_eq_square algebra_simps)
  also have "\<dots> - cxy * cxy = (cxx + cyy)\<^sup>2 - D\<^sup>2 * ((sin (2 * theta))\<^sup>2 + (cos (2 * theta))\<^sup>2)"
    unfolding q c using sq_factor [of "cos (2 * theta)" D "sin (2 * theta)"]
    by (simp only: power2_eq_square)
  also have "\<dots> = (cxx + cyy)\<^sup>2 - D\<^sup>2"
    by (simp only: sin_cos_squared_add mult_1_right)
  also have "\<dots> = (cxx + cyy - (- D)) * (cxx + cyy + (- D))"
    by (simp add: power2_eq_square algebra_simps)
  also have "\<dots> = 4 / (a * a * (b * b))"
    unfolding pmt ppt by simp
  finally have e: "4 * (cxx * cyy) - cxy * cxy = 4 / (a * a * (b * b))" .
  have "0 < 4 / (a * a * (b * b))" using ab by simp
  then have "0 < 4 * (cxx * cyy) - cxy * cxy" unfolding e .
  then have disc: "\<not> cxx * cyy - cxy * cxy / 4 \<le> 0" by linarith
  have "0 < 1 / (a * a)" "0 < 1 / (b * b)" using ab by simp_all
  then have ppos: "\<not> cxx + cyy \<le> 0" unfolding p by linarith
  let ?u = "2 * theta"
  have u: "- pi < ?u" "?u \<le> pi" "\<bar>?u\<bar> \<noteq> pi / 2" using th by auto
  have cs: "(cos ?u < 0 \<longleftrightarrow> ?u < - (pi / 2) \<or> pi / 2 < ?u) \<and> cos ?u \<noteq> 0"
    using u by (rule cos_sign)
  then have cos0: "cos ?u \<noteq> 0" and cosneg: "cos ?u < 0 \<longleftrightarrow> ?u < - (pi / 2) \<or> pi / 2 < ?u"
    by simp_all
  have sgn: "cyy < cxx \<longleftrightarrow> cos ?u < 0"
  proof -
    have "cyy < cxx \<longleftrightarrow> 0 < cos ?u * D" using q by auto
    also have "\<dots> \<longleftrightarrow> cos ?u < 0" using Dneg by (simp add: zero_less_mult_iff)
    finally show ?thesis .
  qed
  have ratio: "cxy / (cxx - cyy) = sin ?u / cos ?u"
    unfolding q c using Dneg by simp
  have cxy0: "cxy = 0 \<longleftrightarrow> sin ?u = 0" unfolding c using Dneg by simp
  have q0: "cxx - cyy \<noteq> 0" unfolding q using Dneg cos0 by simp
  have half: "arctan (sin ?u / cos ?u) / 2 =
           (if ?u < - (pi / 2) then (?u + pi) / 2 else if ?u < pi / 2 then ?u / 2 else (?u - pi) / 2)"
    using u by (rule half_arctan_tan)
  have sin0: "sin ?u = 0 \<Longrightarrow> theta = 0 \<or> theta = pi / 2"
  proof -
    assume z: "sin ?u = 0"
    show ?thesis
    proof (cases "?u = pi")
      case True
      then show ?thesis by simp
    next
      case False
      with u(1,2) have "- pi < ?u" "?u < pi" by simp_all
      then have "?u = 0" using z by (rule sin_eq_0_pi)
      then show ?thesis by simp
    qed
  qed
  show ?thesis
  proof (cases "sin ?u = 0")
    case True
    then have "theta = 0 \<or> theta = pi / 2" by (rule sin0)
    then show ?thesis
    proof
      assume z: "theta = 0"
      have "\<not> cyy < cxx" unfolding sgn z by simp
      then show ?thesis using True disc ppos
        by (simp add: sep_ellipse_axes_def Let_def A B cxy0 z)
    next
      assume z: "theta = pi / 2"
      have "cyy < cxx" unfolding sgn z by simp
      then show ?thesis using True disc ppos
        by (simp add: sep_ellipse_axes_def Let_def A B cxy0 z)
    qed
  next
    case False
    show ?thesis
    proof (cases "cos ?u < 0")
      case True
      then have cc: "cyy < cxx" using sgn by simp
      from True cosneg have "?u < - (pi / 2) \<or> pi / 2 < ?u" by simp
      then show ?thesis
      proof
        assume l: "?u < - (pi / 2)"
        have "arctan (sin ?u / cos ?u) / 2 = (?u + pi) / 2" using half l by simp
        then have h: "arctan (sin ?u / cos ?u) / 2 = theta + pi / 2" by simp
        show ?thesis using False disc ppos cc q0 l th pi_gt_zero
          by (simp add: sep_ellipse_axes_def Let_def A B cxy0 ratio h)
      next
        assume l: "pi / 2 < ?u"
        have "\<not> ?u < - (pi / 2)" "\<not> ?u < pi / 2" using l pi_gt_zero by linarith+
        then have "arctan (sin ?u / cos ?u) / 2 = (?u - pi) / 2" using half by simp
        then have h: "arctan (sin ?u / cos ?u) / 2 = theta - pi / 2" by simp
        show ?thesis using False disc ppos cc q0 l th pi_gt_zero
          by (simp add: sep_ellipse_axes_def Let_def A B cxy0 ratio h)
      qed
    next
      case False2: False
      then have cc: "\<not> cyy < cxx" using sgn by simp
      from False2 cosneg have l: "- (pi / 2) \<le> ?u" "?u \<le> pi / 2" by auto
      with u(3) have l': "- (pi / 2) < ?u" "?u < pi / 2" by auto
      have "\<not> ?u < - (pi / 2)" using l' by linarith
      then have "arctan (sin ?u / cos ?u) / 2 = ?u / 2" using half l'(2) by simp
      then have h: "arctan (sin ?u / cos ?u) / 2 = theta" by simp
      show ?thesis using False disc ppos cc q0 l' th pi_gt_zero
        by (simp add: sep_ellipse_axes_def Let_def A B cxy0 ratio h)
    qed
  qed
qed


lemma coeffs_circle:
  assumes "0 < a"
  shows "sep_ellipse_coeffs a a theta = Some (1 / (a * a), 1 / (a * a), 0)"
proof -
  have "cos theta * cos theta / (a * a) + sin theta * sin theta / (a * a) = 1 / (a * a)"
    by (simp only: add_divide_distrib [symmetric] sin_cos_squared_add3)
  moreover from this
  have "sin theta * sin theta / (a * a) + cos theta * cos theta / (a * a) = 1 / (a * a)"
    by (simp only: add.commute)
  ultimately show ?thesis using assms
    by (simp add: sep_ellipse_coeffs_def Let_def)
qed

lemma axes_circle:
  assumes "0 < a"
  shows "sep_ellipse_axes (1 / (a * a)) (1 / (a * a)) 0 = Inr (a, a, 0)"
proof -
  have "0 < 1 / (a * a)" using assms by simp
  then have "\<not> 1 / (a * a) * (1 / (a * a)) \<le> 0" "\<not> 1 / (a * a) + 1 / (a * a) \<le> 0"
    by (simp_all add: not_le)
  moreover have "sqrt (2 / (1 / (a * a) + 1 / (a * a))) = a" using assms by simp
  ultimately show ?thesis
    by (simp add: sep_ellipse_axes_def Let_def)
qed

lemma coeffs_rotated:
  assumes "0 < b" "0 < a"
  shows "\<exists>cxx cyy cxy. sep_ellipse_coeffs a b theta = Some (cxx, cyy, cxy) \<and>
           cxx + cyy = 1 / (a * a) + 1 / (b * b) \<and>
           cxx - cyy = cos (2 * theta) * (1 / (a * a) - 1 / (b * b)) \<and>
           cxy = sin (2 * theta) * (1 / (a * a) - 1 / (b * b))"
proof -
  let ?c = "cos theta" and ?s = "sin theta"
  let ?A = "1 / (a * a)" and ?B = "1 / (b * b)"
  have e: "sep_ellipse_coeffs a b theta =
      Some (?c * ?c * ?A + ?s * ?s * ?B, ?s * ?s * ?A + ?c * ?c * ?B, 2 * ?c * ?s * (?A - ?B))"
    using assms by (simp add: sep_ellipse_coeffs_def Let_def)
  have "(?c * ?c * ?A + ?s * ?s * ?B) + (?s * ?s * ?A + ?c * ?c * ?B)
          = (?c * ?c + ?s * ?s) * (?A + ?B)"
    by (simp only: algebra_simps)
  then have p: "(?c * ?c * ?A + ?s * ?s * ?B) + (?s * ?s * ?A + ?c * ?c * ?B) = ?A + ?B"
    by (simp only: sin_cos_squared_add3 mult_1_left)
  have "(?c * ?c * ?A + ?s * ?s * ?B) - (?s * ?s * ?A + ?c * ?c * ?B)
          = (?c\<^sup>2 - ?s\<^sup>2) * (?A - ?B)"
    by (simp only: power2_eq_square algebra_simps)
  then have q: "(?c * ?c * ?A + ?s * ?s * ?B) - (?s * ?s * ?A + ?c * ?c * ?B)
          = cos (2 * theta) * (?A - ?B)"
    by (simp only: cos_double)
  have c: "2 * ?c * ?s * (?A - ?B) = sin (2 * theta) * (?A - ?B)"
    by (simp add: sin_double)
  show ?thesis using e p q c by blast
qed

text \<open>
  C6 (as amended). For \<open>a > b > 0\<close> and \<open>theta\<close> in \<open>(- pi / 2, pi / 2]\<close> other than
  \<open>pi / 4\<close> and \<open>- pi / 4\<close>, converting the axes to coefficients and back succeeds and
  returns \<open>(a, b, theta)\<close>. For a circle, \<open>a = b > 0\<close>, it succeeds and returns
  \<open>(a, a, 0)\<close> whatever \<open>theta\<close> was.
\<close>

theorem ellipse_roundtrip_recovers:
  assumes "0 < b" "b \<le> a" "- (pi / 2) < theta" "theta \<le> pi / 2"
    and "a = b \<or> \<bar>theta\<bar> \<noteq> pi / 4"
  shows "ellipse_roundtrip a b theta = Some (a, b, if a = b then 0 else theta)"
proof (cases "a = b")
  case True
  then show ?thesis using assms(1) coeffs_circle [of a theta] axes_circle [of a]
    by (simp add: ellipse_roundtrip_def)
next
  case False
  with assms have ab: "0 < b" "b < a" and th: "\<bar>theta\<bar> \<noteq> pi / 4" by simp_all
  from ab have "0 < a" by simp
  with ab(1) obtain cxx cyy cxy where
    e: "sep_ellipse_coeffs a b theta = Some (cxx, cyy, cxy)"
    and p: "cxx + cyy = 1 / (a * a) + 1 / (b * b)"
    and q: "cxx - cyy = cos (2 * theta) * (1 / (a * a) - 1 / (b * b))"
    and c: "cxy = sin (2 * theta) * (1 / (a * a) - 1 / (b * b))"
    using coeffs_rotated [of b a theta] by blast
  have "sep_ellipse_axes cxx cyy cxy = Inr (a, b, theta)"
    using ab assms(3,4) th refl p q c by (rule axes_of_rotated)
  then show ?thesis using e False by (simp add: ellipse_roundtrip_def)
qed

theorem ellipse_roundtrip_recovers_witness:
  "ellipse_roundtrip 2 1 0 = Some (2, 1, 0) \<and> ellipse_roundtrip 3 3 (1 / 2) = Some (3, 3, 0)"
  using ellipse_roundtrip_recovers [of 1 2 0] ellipse_roundtrip_recovers [of 3 3 "1 / 2"]
    pi_ge_two
  by simp

text \<open>
  The claim as stated, for all \<open>a \<ge> b > 0\<close>, fails on a circle: the angle \<open>1\<close> lies in
  \<open>(- pi / 2, pi / 2]\<close>, and the round trip from \<open>(1, 1, 1)\<close> returns the angle \<open>0\<close>, which
  differs from \<open>1\<close> and from \<open>1 + pi\<close> and \<open>1 - pi\<close>.
\<close>

theorem ellipse_roundtrip_counterexample:
  "(0::real) < 1 \<and> (1::real) \<le> 1 \<and> - (pi / 2) < 1 \<and> 1 \<le> pi / 2 \<and>
   ellipse_roundtrip 1 1 1 = Some (1, 1, 0) \<and>
   (0::real) \<noteq> 1 \<and> 0 \<noteq> 1 + pi \<and> 0 \<noteq> 1 - pi"
proof -
  have "ellipse_roundtrip 1 1 1 = Some (1, 1, 0)"
    using coeffs_circle [of 1 1] axes_circle [of 1] by (simp add: ellipse_roundtrip_def)
  moreover have "- (pi / 2) < 1" "1 \<le> pi / 2" "0 \<noteq> 1 + pi" "0 \<noteq> 1 - pi"
    using pi_ge_two by simp_all
  ultimately show ?thesis by simp
qed


subsection \<open>Box extent\<close>

text \<open>
  The truncation bit as \<^verbatim>\<open>boxextent\<close> computes it, and the bounds it returns: the tests
  are on the values converted with \<^verbatim>\<open>(int)\<close>.
\<close>

lemma c_int_Some: "c_int d = Some k \<longleftrightarrow> k = c_trunc d \<and> in_int (c_trunc d)"
  by (auto simp: c_int_def)

lemma boxextent_Some:
  "boxextent x y rx ry w h flag = Some (xmin, xmax, ymin, ymax, flag') \<longleftrightarrow>
     in_int (c_trunc (x - rx + 0.5)) \<and> in_int (c_trunc (x + rx + 1.4999999)) \<and>
     in_int (c_trunc (y - ry + 0.5)) \<and> in_int (c_trunc (y + ry + 1.4999999)) \<and>
     xmin = max 0 (c_trunc (x - rx + 0.5)) \<and> xmax = min w (c_trunc (x + rx + 1.4999999)) \<and>
     ymin = max 0 (c_trunc (y - ry + 0.5)) \<and> ymax = min h (c_trunc (y + ry + 1.4999999)) \<and>
     flag' = (if c_trunc (x - rx + 0.5) < 0 \<or> c_trunc (x + rx + 1.4999999) > w \<or>
                 c_trunc (y - ry + 0.5) < 0 \<or> c_trunc (y + ry + 1.4999999) > h
              then flag OR SEP_APER_TRUNC else flag)"
  by (auto simp: boxextent_def c_int_def Let_def or.assoc)

text \<open>
  C4. The claim says that the truncation flag is set if and only if the box with lower
  bound \<open>floor (x - r + 0.5)\<close> and upper bound \<open>floor (x + r + 1.5 - epsilon)\<close> extends
  beyond the image. The code converts with \<^verbatim>\<open>(int)\<close>, which rounds a negative value up:
  for a circle of radius 1 at \<open>x = 0\<close>, \<open>y = 5\<close> in a 10 by 10 image the lower bound is
  \<open>floor (- 0.5) = - 1\<close>, outside the image, while the code computes \<open>xmin = 0\<close> and
  leaves the flag word at 0.
\<close>

theorem boxextent_truncation_missed:
  "boxextent 0 5 1 1 10 10 0 = Some (0, 2, 4, 7, 0) \<and> \<lfloor>(0::real) - 1 + 0.5\<rfloor> = - 1"
  by (simp add: boxextent_def c_int_def c_trunc_def in_int_def Let_def)

subsection \<open>Percentile interpolation\<close>

lemma ppf_scan_inv:
  assumes "0 \<le> i" "i \<le> int (length y)" "cumsum = sum_list (take (nat i) y)"
    and "ppf_scan y targ i cumsum = (i', c')"
  shows "i \<le> i' \<and> i' \<le> int (length y) \<and> c' = sum_list (take (nat i') y) \<and>
         (i' < int (length y) \<longrightarrow> targ \<le> c') \<and>
         (\<forall>k. i \<le> k \<and> k < i' \<longrightarrow> sum_list (take (nat k) y) < targ)"
  using assms
proof (induction y targ i cumsum rule: ppf_scan.induct)
  case (1 y targsum i cumsum)
  show ?case
  proof (cases "i < int (length y) \<and> cumsum < targsum")
    case True
    then have lt: "nat i < length y" using "1.prems"(1) by linarith
    have n: "nat (i + 1) = Suc (nat i)" using "1.prems"(1) by linarith
    have c: "cumsum + y ! nat i = sum_list (take (nat (i + 1)) y)"
      unfolding n using lt "1.prems"(3) by (simp add: take_Suc_conv_app_nth)
    have "ppf_scan y targsum i cumsum = ppf_scan y targsum (i + 1) (cumsum + y ! nat i)"
      by (subst ppf_scan.simps) (simp only: True simp_thms if_True)
    then have r: "ppf_scan y targsum (i + 1) (cumsum + y ! nat i) = (i', c')"
      using "1.prems"(4) by simp
    have ih: "i + 1 \<le> i' \<and> i' \<le> int (length y) \<and> c' = sum_list (take (nat i') y) \<and>
         (i' < int (length y) \<longrightarrow> targsum \<le> c') \<and>
         (\<forall>k. i + 1 \<le> k \<and> k < i' \<longrightarrow> sum_list (take (nat k) y) < targsum)"
      by (rule "1.IH" [OF True _ _ c r]) (use "1.prems"(1) True in simp_all)
    have "\<And>k. i \<le> k \<Longrightarrow> k < i' \<Longrightarrow> sum_list (take (nat k) y) < targsum"
    proof -
      fix k assume k: "i \<le> k" "k < i'"
      show "sum_list (take (nat k) y) < targsum"
      proof (cases "k = i")
        case True
        then show ?thesis using \<open>i < int (length y) \<and> cumsum < targsum\<close> "1.prems"(3) by simp
      next
        case False
        then have "i + 1 \<le> k" using k by simp
        then show ?thesis using ih k by blast
      qed
    qed
    then have "\<forall>k. i \<le> k \<and> k < i' \<longrightarrow> sum_list (take (nat k) y) < targsum" by blast
    moreover have "i \<le> i'" using ih by linarith
    ultimately show ?thesis using ih by blast
  next
    case False
    have "ppf_scan y targsum i cumsum = (i, cumsum)"
      by (subst ppf_scan.simps) (simp only: False simp_thms if_False)
    then have "i' = i" "c' = cumsum" using "1.prems"(4) by simp_all
    then show ?thesis using False "1.prems" by auto
  qed
qed

lemma scan_at:
  assumes "ppf_scan y targ 0 0 = (i', c')"
  shows "0 \<le> i' \<and> i' \<le> int (length y) \<and> c' = sum_list (take (nat i') y) \<and>
         (i' < int (length y) \<longrightarrow> targ \<le> c') \<and>
         (\<forall>k. 0 \<le> k \<and> k < i' \<longrightarrow> sum_list (take (nat k) y) < targ)"
  by (rule ppf_scan_inv [of 0 y 0 targ i' c']) (use assms in simp_all)

lemma scan_first:
  assumes "0 < i" "i < length y" 
    and "\<forall>k<i. sum_list (take k y) < targ" "targ \<le> sum_list (take i y)"
  shows "ppf_scan y targ 0 0 = (int i, sum_list (take i y))"
proof -
  obtain i' c' where r: "ppf_scan y targ 0 0 = (i', c')" by (cases "ppf_scan y targ 0 0")
  note s = scan_at [OF r]
  have "\<not> i' < int i"
  proof
    assume lt: "i' < int i"
    then have "i' < int (length y)" using assms(2) by linarith
    then have "targ \<le> sum_list (take (nat i') y)" using s by blast
    moreover have "nat i' < i" using lt s by linarith
    ultimately show False using assms(3) by fastforce
  qed
  moreover have "\<not> int i < i'"
  proof
    assume "int i < i'"
    then have "sum_list (take (nat (int i)) y) < targ" using s by (meson of_nat_0_le_iff)
    then show False using assms(4) by simp
  qed
  ultimately have "i' = int i" by linarith
  then show ?thesis using r s by simp
qed

lemma scan_none:
  assumes "\<forall>k<length y. sum_list (take k y) < targ"
  shows "fst (ppf_scan y targ 0 0) = int (length y)"
proof -
  obtain i' c' where r: "ppf_scan y targ 0 0 = (i', c')" by (cases "ppf_scan y targ 0 0")
  note s = scan_at [OF r]
  have "\<not> i' < int (length y)"
  proof
    assume lt: "i' < int (length y)"
    then have "targ \<le> sum_list (take (nat i') y)" using s by blast
    moreover have "nat i' < length y" using lt s by linarith
    ultimately show False using assms by fastforce
  qed
  then show ?thesis using r s by simp
qed

lemma foldl_sum: "foldl (+) a y = a + sum_list (y :: real list)"
  by (induction y arbitrary: a) simp_all


lemma sep_ppf_nth:
  "k < length fracs \<Longrightarrow> sep_ppf xmax y fracs ! k = ppf_radius xmax y (fracs ! k)"
  by (simp add: sep_ppf_def)

text \<open>
  What \<open>ppf_radius\<close> returns, by the count \<open>i\<close> at which the scan stops: 0 when the
  target \<open>f * S\<close> is not positive, \<open>xmax\<close> when no prefix of fewer than \<open>n\<close> bins reaches
  the target, and the interpolated radius when the smallest count of bins that
  reaches it satisfies \<open>0 < i < n\<close>.
\<close>

lemma ppf_radius_cases:
  "(f * sum_list y \<le> 0 \<longrightarrow> ppf_radius xmax y f = 0) \<and>
   (y \<noteq> [] \<and> (\<forall>k<length y. sum_list (take k y) < f * sum_list y)
      \<longrightarrow> ppf_radius xmax y f = xmax) \<and>
   (\<forall>i. 0 < i \<and> i < length y \<and> (\<forall>k<i. sum_list (take k y) < f * sum_list y)
          \<and> f * sum_list y \<le> sum_list (take i y)
      \<longrightarrow> ppf_radius xmax y f =
            xmax / real (length y) * (real i + (f * sum_list y - sum_list (take i y)) / y ! (i - 1)))"
proof (intro conjI impI allI)
  assume "f * sum_list y \<le> 0"
  then have "ppf_scan y (f * sum_list y) 0 0 = (0, 0)"
    by (subst ppf_scan.simps) simp
  then show "ppf_radius xmax y f = 0"
    by (simp add: ppf_radius_def Let_def foldl_sum)
next
  assume a: "y \<noteq> [] \<and> (\<forall>k<length y. sum_list (take k y) < f * sum_list y)"
  then have "fst (ppf_scan y (f * sum_list y) 0 0) = int (length y)"
    using scan_none by blast
  then show "ppf_radius xmax y f = xmax" using a
    by (simp add: ppf_radius_def Let_def foldl_sum split_beta)
next
  fix i
  assume a: "0 < i \<and> i < length y \<and> (\<forall>k<i. sum_list (take k y) < f * sum_list y)
          \<and> f * sum_list y \<le> sum_list (take i y)"
  then have "ppf_scan y (f * sum_list y) 0 0 = (int i, sum_list (take i y))"
    using scan_first by blast
  moreover have "nat (int i - 1) = i - 1" by simp
  ultimately show "ppf_radius xmax y f =
      xmax / real (length y) * (real i + (f * sum_list y - sum_list (take i y)) / y ! (i - 1))"
    using a by (simp add: ppf_radius_def Let_def foldl_sum)
qed

text \<open>
  C3. The claim gives the radius \<open>step * (i + (f * S - cumsum\<^sub>i) / y[i - 1])\<close> whenever
  some prefix of the bins reaches the target \<open>f * S\<close>, where \<open>i\<close> is the smallest count of
  bins whose sum reaches it, and \<open>xmax\<close> only when no prefix does. The code tests
  \<^verbatim>\<open>i == n\<close> before it interpolates, so it also returns \<open>xmax\<close> when the last bin is the
  one that reaches the target, where every other bin interpolates. For four bins of
  value 10 and \<open>xmax = 4\<close> the bin width is 1; with \<open>f = 7 / 8\<close> the target is 35, the
  prefixes of 0, 1, 2 and 3 bins stay below it and all four bins reach it, so \<open>i = 4\<close>
  and the claimed radius is \<open>7 / 2\<close>, while the code returns 4. The targets 29, 30 and
  31 of 40 give the radii \<open>29 / 10\<close>, 3 and 4: the result jumps by a whole bin where the
  claimed radius is \<open>31 / 10\<close>. The three values of the claim's example, for the
  fractions \<open>1 / 2\<close>, 0 and 1, are returned as claimed.
\<close>

theorem sep_ppf_last_bin_saturates:
  "sum_list (take 0 [10, 10, 10, 10]) < 7 / 8 * sum_list [10, 10, 10, 10 :: real] \<and>
   sum_list (take 1 [10, 10, 10, 10]) < 7 / 8 * sum_list [10, 10, 10, 10 :: real] \<and>
   sum_list (take 2 [10, 10, 10, 10]) < 7 / 8 * sum_list [10, 10, 10, 10 :: real] \<and>
   sum_list (take 3 [10, 10, 10, 10]) < 7 / 8 * sum_list [10, 10, 10, 10 :: real] \<and>
   7 / 8 * sum_list [10, 10, 10, 10 :: real] \<le> sum_list (take 4 [10, 10, 10, 10]) \<and>
   4 / real (length [10, 10, 10, 10 :: real]) *
     (real 4 + (7 / 8 * sum_list [10, 10, 10, 10] - sum_list (take 4 [10, 10, 10, 10]))
                 / [10, 10, 10, 10] ! (4 - 1)) = 7 / 2 \<and>
   ppf_scan [10, 10, 10, 10] (7 / 8 * foldl (+) 0 [10, 10, 10, 10]) 0 0 = (4, 40) \<and>
   ppf_radius 4 [10, 10, 10, 10] (7 / 8) = 4 \<and>
   sep_ppf 4 [10, 10, 10, 10] [29 / 40, 30 / 40, 31 / 40] = [29 / 10, 3, 4] \<and>
   sep_ppf 4 [10, 10, 10, 10] [1 / 2, 0, 1] = [2, 0, 4]"
  by (simp add: sep_ppf_def ppf_radius_def Let_def ppf_scan.simps numeral_eq_Suc)

text \<open>
  C10. When the scan of \<^verbatim>\<open>sep_ppf\<close> stops at a count \<open>i\<close> with \<open>0 < i < n\<close>, the divisor
  \<open>y[i - 1]\<close> of the interpolation formula is strictly positive: the cumulative sum was
  below the target before bin \<open>i - 1\<close> was added and is at or above it afterwards. This
  needs neither the non-negativity of the other bins nor a positive target.
\<close>

theorem sep_ppf_divisor_positive:
  assumes "ppf_scan y (f * foldl (+) 0 y) 0 0 = (i, cumsum)"
    and "0 < i" "i < int (length y)"
  shows "0 < y ! nat (i - 1) \<and>
         cumsum - y ! nat (i - 1) < f * foldl (+) 0 y \<and> f * foldl (+) 0 y \<le> cumsum"
proof -
  note s = scan_at [OF assms(1)]
  have n: "nat i = Suc (nat (i - 1))" using assms(2) by linarith
  have lt: "nat (i - 1) < length y" using assms(2,3) by linarith
  have c: "cumsum = sum_list (take (nat (i - 1)) y) + y ! nat (i - 1)"
    using s lt unfolding n by (simp add: take_Suc_conv_app_nth)
  have "0 \<le> i - 1 \<and> i - 1 < i" using assms(2) by simp
  then have b: "sum_list (take (nat (i - 1)) y) < f * foldl (+) 0 y" using s by blast
  have t: "f * foldl (+) 0 y \<le> cumsum" using s assms(3) by blast
  show ?thesis using b t c by linarith
qed


theorem sep_ppf_divisor_positive_witness:
  "ppf_scan [10, 10, 10, 10] (1 / 2 * foldl (+) 0 [10, 10, 10, 10]) 0 0 = (2, 20) \<and>
   (0::real) < [10, 10, 10, 10] ! nat (2 - 1)"
proof -
  have h: "ppf_scan [10, 10, 10, 10] (1 / 2 * foldl (+) 0 [10, 10, 10, 10]) 0 0 = (2, 20)"
    by (simp add: ppf_scan.simps)
  have "(0::int) < 2" "(2::int) < int (length [10, 10, 10, 10 :: real])" by simp_all
  with h show ?thesis
    using sep_ppf_divisor_positive [of "[10, 10, 10, 10]" "1 / 2" 2 20] by blast
qed

subsection \<open>Correction for masked values\<close>

lemma mask_ignore_loop_length: "length (mask_ignore_loop n area maskarea) = length area"
  by (induction n arbitrary: area) simp_all

lemma mask_ignore_loop_nth:
  "n \<le> length area \<Longrightarrow> j < length area \<Longrightarrow>
   mask_ignore_loop n area maskarea ! j = (if j < n then area ! j - maskarea ! j else area ! j)"
proof (induction n arbitrary: area)
  case 0
  then show ?case by simp
next
  case (Suc n)
  have "mask_ignore_loop (Suc n) area maskarea ! j =
        mask_ignore_loop n (area[n := area ! n - maskarea ! n]) maskarea ! j" by simp
  also have "\<dots> = (if j < n then area[n := area ! n - maskarea ! n] ! j - maskarea ! j
                   else area[n := area ! n - maskarea ! n] ! j)"
    using Suc.prems by (intro Suc.IH) simp_all
  also have "\<dots> = (if j < Suc n then area ! j - maskarea ! j else area ! j)"
    using Suc.prems by (auto simp: nth_list_update less_Suc_eq)
  finally show ?case .
qed

lemma mask_rescale_loop_keep:
  "m \<le> k \<Longrightarrow> mask_rescale_loop m s v area maskarea = (s', v') \<Longrightarrow>
   s' ! k = s ! k \<and> v' ! k = v ! k"
proof (induction m arbitrary: s v)
  case 0
  then show ?case by simp
next
  case (Suc m)
  let ?tmp = "if area ! m = maskarea ! m then 0 else area ! m / (area ! m - maskarea ! m)"
  have "mask_rescale_loop m (s[m := s ! m * ?tmp]) (v[m := v ! m * ?tmp]) area maskarea = (s', v')"
    using Suc.prems(2) by (simp only: mask_rescale_loop.simps Let_def)
  then have "s' ! k = (s[m := s ! m * ?tmp]) ! k \<and> v' ! k = (v[m := v ! m * ?tmp]) ! k"
    using Suc.prems(1) by (intro Suc.IH) simp
  then show ?case using Suc.prems(1) by simp
qed

lemma mask_rescale_loop_nth:
  "n \<le> length sum_buf \<Longrightarrow> n \<le> length sumvar \<Longrightarrow> j < n \<Longrightarrow>
   mask_rescale_loop n sum_buf sumvar area maskarea = (s', v') \<Longrightarrow>
   s' ! j = sum_buf ! j * (if area ! j = maskarea ! j then 0 else area ! j / (area ! j - maskarea ! j)) \<and>
   v' ! j = sumvar ! j * (if area ! j = maskarea ! j then 0 else area ! j / (area ! j - maskarea ! j))"
proof (induction n arbitrary: sum_buf sumvar)
  case 0
  then show ?case by simp
next
  case (Suc n)
  let ?tmp = "if area ! n = maskarea ! n then 0 else area ! n / (area ! n - maskarea ! n)"
  let ?s = "sum_buf[n := sum_buf ! n * ?tmp]" and ?v = "sumvar[n := sumvar ! n * ?tmp]"
  have r: "mask_rescale_loop n ?s ?v area maskarea = (s', v')"
    using Suc.prems(4) by (simp only: mask_rescale_loop.simps Let_def)
  show ?case
  proof (cases "j < n")
    case True
    then have "s' ! j = ?s ! j * (if area ! j = maskarea ! j then 0 else area ! j / (area ! j - maskarea ! j)) \<and>
          v' ! j = ?v ! j * (if area ! j = maskarea ! j then 0 else area ! j / (area ! j - maskarea ! j))"
      using Suc.prems(1,2) r by (intro Suc.IH) simp_all
    then show ?thesis using True by simp
  next
    case False
    then have jn: "j = n" using Suc.prems(3) by simp
    have "s' ! n = ?s ! n \<and> v' ! n = ?v ! n"
      using r by (intro mask_rescale_loop_keep [of n]) simp_all
    then show ?thesis using Suc.prems(1,2) jn by simp
  qed
qed

text \<open>
  C2. When a mask buffer is supplied, the correction after the scan does this to every
  bin \<open>j < n\<close>: under \<^verbatim>\<open>SEP_MASK_IGNORE\<close> the area is reduced by the bin's maskarea and
  sum and sumvar are unchanged; otherwise sum and sumvar are multiplied by
  \<open>area / (area - maskarea)\<close>, or by 0 when area equals maskarea, so that they become 0
  there, and the area is unchanged.
\<close>

theorem correct_for_masked_bins:
  assumes "j < n" "n \<le> length sum_buf" "n \<le> length sumvar" "n \<le> length area"
    and "correct_for_masked True inflag n sum_buf sumvar area maskarea = (s', v', a')"
  shows "(inflag AND SEP_MASK_IGNORE \<noteq> 0 \<longrightarrow>
            a' ! j = area ! j - maskarea ! j \<and> s' = sum_buf \<and> v' = sumvar) \<and>
         (inflag AND SEP_MASK_IGNORE = 0 \<longrightarrow>
            s' ! j = sum_buf ! j *
              (if area ! j = maskarea ! j then 0 else area ! j / (area ! j - maskarea ! j)) \<and>
            v' ! j = sumvar ! j *
              (if area ! j = maskarea ! j then 0 else area ! j / (area ! j - maskarea ! j)) \<and>
            a' = area \<and>
            (area ! j = maskarea ! j \<longrightarrow> s' ! j = 0 \<and> v' ! j = 0))"
proof (intro conjI impI)
  assume ig: "inflag AND SEP_MASK_IGNORE \<noteq> 0"
  then have e: "s' = sum_buf" "v' = sumvar" "a' = mask_ignore_loop n area maskarea"
    using assms(5) by (simp_all add: correct_for_masked_def)
  show "s' = sum_buf" "v' = sumvar" by (rule e)+
  show "a' ! j = area ! j - maskarea ! j"
    unfolding e using assms(1,4) by (simp add: mask_ignore_loop_nth)
next
  assume rs: "inflag AND SEP_MASK_IGNORE = 0"
  then have e: "mask_rescale_loop n sum_buf sumvar area maskarea = (s', v')" "a' = area"
    using assms(5) by (auto simp: correct_for_masked_def split: prod.splits)
  note r = mask_rescale_loop_nth [OF assms(2,3,1) e(1)]
  show "a' = area" by (rule e)
  show "s' ! j = sum_buf ! j *
      (if area ! j = maskarea ! j then 0 else area ! j / (area ! j - maskarea ! j))"
    using r by blast
  show "v' ! j = sumvar ! j *
      (if area ! j = maskarea ! j then 0 else area ! j / (area ! j - maskarea ! j))"
    using r by blast
  show "s' ! j = 0" "v' ! j = 0" if "area ! j = maskarea ! j"
    using r that by simp_all
qed

theorem correct_for_masked_bins_witness:
  "correct_for_masked True SEP_MASK_IGNORE 2 [3, 8] [1, 2] [4, 6] [1, 6] = ([3, 8], [1, 2], [3, 0]) \<and>
   correct_for_masked True 0 2 [3, 8] [1, 2] [4, 6] [1, 6] = ([4, 0], [4 / 3, 0], [4, 6])"
proof -
  have nz: "SEP_MASK_IGNORE AND SEP_MASK_IGNORE \<noteq> 0"
    by (simp add: SEP_MASK_IGNORE_def)
  have a: "correct_for_masked True SEP_MASK_IGNORE 2 [3, 8] [1, 2] [4, 6] [1, 6] = ([3, 8], [1, 2], [3, 0])"
    using nz by (simp add: correct_for_masked_def eval_nat_numeral)
  have b: "correct_for_masked True 0 2 [3, 8] [1, 2] [4, 6] [1, 6] = ([4, 0], [4 / 3, 0], [4, 6])"
    by (simp add: correct_for_masked_def eval_nat_numeral Let_def)
  have "[3, 0 :: real] ! 0 = [4, 6] ! 0 - [1, 6] ! 0"
    using correct_for_masked_bins [OF _ _ _ _ a, of 0] nz by simp
  moreover have "[4, 0 :: real] ! 1 = 0"
    using correct_for_masked_bins [OF _ _ _ _ b, of 1] by simp
  ultimately show ?thesis using a b by simp
qed



subsection \<open>Iteration and row addressing\<close>

lemma for_loop_fold: "for_loop lo hi body s = fold body [lo..hi - 1] s"
proof (induction lo hi body s rule: for_loop.induct)
  case (1 i hi body s)
  show ?case
  proof (cases "i < hi")
    case True
    then have "[i..hi - 1] = i # [i + 1..hi - 1]" by (simp add: upto_rec1)
    moreover have "for_loop i hi body s = for_loop (i + 1) hi body (body i s)"
      by (subst for_loop.simps) (simp only: True if_True)
    ultimately show ?thesis using "1.IH" [OF True] by simp
  next
    case False
    then have "for_loop i hi body s = s"
      by (subst for_loop.simps) (simp only: if_False)
    then show ?thesis using False by simp
  qed
qed

lemma for_loop_empty: "hi \<le> lo \<Longrightarrow> for_loop lo hi body s = s"
  by (subst for_loop.simps) simp

lemma fold_box_pixels:
  "fold (\<lambda>iy. fold (\<lambda>ix. f ix iy) [xmin..xmax - 1]) [ymin..ymax - 1] s
     = fold (\<lambda>p. f (fst p) (snd p)) (box_pixels xmin xmax ymin ymax) s"
proof -
  have "fold (\<lambda>iy. fold (\<lambda>ix. f ix iy) xs) ys s
     = fold (\<lambda>p. f (fst p) (snd p)) (concat (map (\<lambda>iy. map (\<lambda>ix. (ix, iy)) xs) ys)) s" for xs ys
    by (induction ys arbitrary: s) (simp_all add: fold_map comp_def)
  then show ?thesis by (simp add: box_pixels_def)
qed

lemma box_pixels_mem:
  "p \<in> set (box_pixels xmin xmax ymin ymax) \<longleftrightarrow>
     xmin \<le> fst p \<and> fst p < xmax \<and> ymin \<le> snd p \<and> snd p < ymax"
  by (cases p) (force simp: box_pixels_def)

lemma fold_option_Some:
  assumes "\<And>a s. a \<in> set xs \<Longrightarrow> f a (Some s) = Some (g a s)"
  shows "fold f xs (Some s) = Some (fold g xs s)"
  using assms by (induction xs arbitrary: s) simp_all

lemma c_rem_mod: "0 \<le> a \<Longrightarrow> 0 < b \<Longrightarrow> c_rem a b = Some (a mod b)"
  by (simp add: c_rem_def sgn_if)

lemma row_pos_windowed:
  assumes "0 \<le> iy" "0 < h" "in_int ((iy mod h) * w)" "in_int ((iy mod h) * w + xmin)"
  shows "row_pos w h xmin iy = Some ((iy mod h) * w + xmin)"
  using assms by (simp add: row_pos_def c_rem_mod int_mul_def int_add_def)

lemma boxextent_bounds:
  assumes "boxextent x y rx ry w h flag = Some (xmin, xmax, ymin, ymax, flag')"
  shows "0 \<le> xmin \<and> xmax \<le> w \<and> 0 \<le> ymin \<and> ymax \<le> h"
  using assms unfolding boxextent_Some by simp

lemma boxextent_ellipse_bounds:
  assumes "boxextent_ellipse x y cxx cyy cxy r w h flag = Some (xmin, xmax, ymin, ymax, flag')"
  shows "0 \<le> xmin \<and> xmax \<le> w \<and> 0 \<le> ymin \<and> ymax \<le> h"
  using assms unfolding boxextent_ellipse_def Let_def by (rule boxextent_bounds)

text \<open>
  The row offsets of a window of fewer than \<open>2\<^sup>3\<^sup>1\<close> elements are values of \<^verbatim>\<open>int\<close>, for the
  rows \<open>0 \<le> iy < h\<close>; there the offset with and without the remainder is the same.
\<close>

lemma row_offset_in_int:
  assumes "0 \<le> w" "0 \<le> xmin" "h * w + xmin < 2 ^ 31" "0 \<le> iy" "iy < h"
  shows "in_int (iy * w)" "in_int (iy * w + xmin)"
proof -
  have "iy * w \<le> (h - 1) * w" using assms(1,5) by (intro mult_right_mono) simp_all
  also have "\<dots> \<le> h * w" using assms(1) by (simp add: algebra_simps)
  finally have u: "iy * w \<le> h * w" .
  have l: "0 \<le> iy * w" using assms(1,4) by simp
  show "in_int (iy * w)" "in_int (iy * w + xmin)"
    using u l assms(2,3) by (simp_all add: in_int_def)
qed

lemma row_pos_in_window:
  assumes "0 \<le> w" "0 \<le> xmin" "h * w + xmin < 2 ^ 31" "0 \<le> iy" "iy < h"
  shows "row_pos w h xmin iy = Some (iy * w + xmin)"
    and "set_ellipse_row_pos w xmin iy = Some (iy * w + xmin)"
proof -
  note r = row_offset_in_int [OF assms]
  have m: "iy mod h = iy" using assms(4,5) by simp
  have "0 < h" using assms(4,5) by linarith
  then show "row_pos w h xmin iy = Some (iy * w + xmin)"
    using row_pos_windowed [of iy h w xmin] r assms(4) by (simp add: m)
  show "set_ellipse_row_pos w xmin iy = Some (iy * w + xmin)"
    using r by (simp add: set_ellipse_row_pos_def int_mul_def int_add_def)
qed

lemma kron_row_windowed:
  assumes "row_pos w h xmin iy = Some ((iy mod h) * w + xmin)"
  shows "kron_row pixval maskval w h maskthresh x y cxx cyy cxy r2 xmin xmax iy (Some st) =
         Some (for_loop xmin xmax
                 (\<lambda>ix. kron_pixel pixval maskval maskthresh x y cxx cyy cxy r2 iy
                         (pixel_index w h (ix, iy)) ix) st)"
  by (simp add: kron_row_def assms pixel_index_def)

lemma circann_row_windowed:
  assumes "row_pos (cx_w c) (cx_h c) xmin iy = Some ((iy mod cx_h c) * cx_w c + xmin)"
  shows "circann_row c xmin xmax iy (Some st) =
         for_loop xmin xmax
           (\<lambda>ix so. Option.bind so (circann_pixel c iy (pixel_index (cx_w c) (cx_h c) (ix, iy)) ix))
           (Some st)"
  by (simp add: circann_row_def assms pixel_index_def)

lemma sep_set_ellipse_box:
  assumes box: "boxextent_ellipse x y cxx cyy cxy r w h 0 = Some (xmin, xmax, ymin, ymax, fl)"
    and rng: "0 \<le> w" "h * w + xmin < 2 ^ 31"
  shows "sep_set_ellipse arr w h x y cxx cyy cxy r val =
         Some (fold (\<lambda>p arr. if kron_rpix2 x y cxx cyy cxy p \<le> r * r
                              then arr(pixel_index w h p := val) else arr)
                 (box_pixels xmin xmax ymin ymax) arr)"
proof -
  define G where "G = (\<lambda>xi yi (arr :: int \<Rightarrow> 8 word).
      if kron_rpix2 x y cxx cyy cxy (xi, yi) \<le> r * r then arr(pixel_index w h (xi, yi) := val)
      else arr)"
  have b: "0 \<le> xmin" "0 \<le> ymin" "ymax \<le> h" using boxextent_ellipse_bounds [OF box] by simp_all
  have row: "set_ellipse_row w x y cxx cyy cxy (r * r) val xmin xmax yi (Some a) =
      Some (fold (\<lambda>xi. G xi yi) [xmin..xmax - 1] a)" if "yi \<in> set [ymin..ymax - 1]" for yi a
  proof -
    have i: "0 \<le> yi" "yi < h" using that b by simp_all
    then have p: "set_ellipse_row_pos w xmin yi = Some (yi * w + xmin)"
      using row_pos_in_window(2) [OF rng(1) b(1) rng(2)] by blast
    have e: "yi * w + xmin + (xi - xmin) = pixel_index w h (xi, yi)" for xi
      using i by (simp add: pixel_index_def)
    show ?thesis
      by (simp add: set_ellipse_row_def p Let_def for_loop_fold G_def kron_rpix2_def mult.assoc e
          cong: if_cong)
  qed
  have "sep_set_ellipse arr w h x y cxx cyy cxy r val =
      fold (set_ellipse_row w x y cxx cyy cxy (r * r) val xmin xmax) [ymin..ymax - 1] (Some arr)"
    using box by (simp add: sep_set_ellipse_def Let_def for_loop_fold)
  also have "\<dots> = Some (fold (\<lambda>yi. fold (\<lambda>xi. G xi yi) [xmin..xmax - 1]) [ymin..ymax - 1] arr)"
    using row by (rule fold_option_Some)
  also have "\<dots> = Some (fold (\<lambda>p. G (fst p) (snd p)) (box_pixels xmin xmax ymin ymax) arr)"
    by (simp only: fold_box_pixels)
  finally show ?thesis by (simp add: G_def cong: if_cong)
qed

text \<open>
  C9 (as amended). \<^verbatim>\<open>sep_sum_circann_multi\<close> and \<^verbatim>\<open>sep_kron_radius\<close> address the row \<open>iy\<close> of a
  window of \<open>h\<close> rows of \<open>w\<close> pixels at the row \<open>iy mod h\<close>: for \<open>0 \<le> iy\<close> and \<open>0 < h\<close>, when
  the product and the sum are values of \<^verbatim>\<open>int\<close>, the offset of the row start is
  \<open>(iy mod h) * w + xmin\<close> and the pixel \<open>(ix, iy)\<close> is read at the element
  \<open>(iy mod h) * w + ix\<close>. In the three scanning operations the rows that are scanned are
  those of the box after it is clamped to the window, \<open>0 \<le> ymin\<close> and \<open>ymax \<le> h\<close>, so that
  every row that is accessed satisfies \<open>0 \<le> iy < h\<close> and is its own remainder: no access
  wraps around, and a row at or beyond the declared height is not accessed.
  Each pixel \<open>(ix, iy)\<close> of such a box has the element \<open>(iy mod h) * w + ix = iy * w + ix\<close>,
  and \<^verbatim>\<open>sep_set_ellipse\<close> writes the pixels of its box that lie in the ellipse at their
  elements, when \<open>0 \<le> w\<close> and \<open>h * w + xmin < 2\<^sup>3\<^sup>1\<close>.
\<close>

theorem row_addressing_clamped:
  "(0 \<le> iy \<and> 0 < h \<and> in_int ((iy mod h) * w) \<and> in_int ((iy mod h) * w + xmin) \<longrightarrow>
      row_pos w h xmin iy = Some ((iy mod h) * w + xmin) \<and>
      kron_row pixval maskval w h maskthresh x y cxx cyy cxy r2 xmin xmax iy (Some kst) =
        Some (for_loop xmin xmax
                (\<lambda>ix. kron_pixel pixval maskval maskthresh x y cxx cyy cxy r2 iy
                        (pixel_index w h (ix, iy)) ix) kst) \<and>
      (cx_w c = w \<and> cx_h c = h \<longrightarrow>
         circann_row c xmin xmax iy (Some st) =
           for_loop xmin xmax
             (\<lambda>ix so. Option.bind so (circann_pixel c iy (pixel_index w h (ix, iy)) ix))
             (Some st))) \<and>
   (boxextent x y rx ry w h flag = Some (xmin, xmax, ymin, ymax, flag') \<longrightarrow>
      0 \<le> ymin \<and> ymax \<le> h \<and>
      (\<forall>p \<in> set (box_pixels xmin xmax ymin ymax).
          0 \<le> snd p \<and> snd p < h \<and> pixel_index w h p = snd p * w + fst p)) \<and>
   (boxextent_ellipse x y cxx cyy cxy r w h 0 = Some (xmin, xmax, ymin, ymax, flag') \<longrightarrow>
      0 \<le> ymin \<and> ymax \<le> h \<and>
      (\<forall>p \<in> set (box_pixels xmin xmax ymin ymax).
          0 \<le> snd p \<and> snd p < h \<and> pixel_index w h p = snd p * w + fst p) \<and>
      (0 \<le> w \<and> h * w + xmin < 2 ^ 31 \<longrightarrow>
         sep_set_ellipse arr w h x y cxx cyy cxy r val =
           Some (fold (\<lambda>p arr. if kron_rpix2 x y cxx cyy cxy p \<le> r * r
                                then arr(pixel_index w h p := val) else arr)
                   (box_pixels xmin xmax ymin ymax) arr)))"
proof -
  have rows: "\<forall>p \<in> set (box_pixels xmin xmax ymin ymax).
      0 \<le> snd p \<and> snd p < h \<and> pixel_index w h p = snd p * w + fst p"
    if "0 \<le> ymin \<and> ymax \<le> h"
    using that by (auto simp: box_pixels_mem pixel_index_def)
  have 1: "row_pos w h xmin iy = Some ((iy mod h) * w + xmin) \<and>
      kron_row pixval maskval w h maskthresh x y cxx cyy cxy r2 xmin xmax iy (Some kst) =
        Some (for_loop xmin xmax
                (\<lambda>ix. kron_pixel pixval maskval maskthresh x y cxx cyy cxy r2 iy
                        (pixel_index w h (ix, iy)) ix) kst) \<and>
      (cx_w c = w \<and> cx_h c = h \<longrightarrow>
         circann_row c xmin xmax iy (Some st) =
           for_loop xmin xmax
             (\<lambda>ix so. Option.bind so (circann_pixel c iy (pixel_index w h (ix, iy)) ix))
             (Some st))"
    if a: "0 \<le> iy \<and> 0 < h \<and> in_int ((iy mod h) * w) \<and> in_int ((iy mod h) * w + xmin)"
  proof -
    have r: "row_pos w h xmin iy = Some ((iy mod h) * w + xmin)"
      using a by (intro row_pos_windowed) simp_all
    show ?thesis
      using r kron_row_windowed [OF r] circann_row_windowed [of c xmin iy] by auto
  qed
  have 2: "0 \<le> ymin \<and> ymax \<le> h"
    if "boxextent x y rx ry w h flag = Some (xmin, xmax, ymin, ymax, flag')"
    using boxextent_bounds [OF that] by simp
  have 3: "0 \<le> ymin \<and> ymax \<le> h"
    if "boxextent_ellipse x y cxx cyy cxy r w h 0 = Some (xmin, xmax, ymin, ymax, flag')"
    using boxextent_ellipse_bounds [OF that] by simp
  show ?thesis
    using 1 2 3 rows sep_set_ellipse_box [of x y cxx cyy cxy r w h xmin xmax ymin ymax flag' arr val]
    by blast
qed


theorem row_addressing_clamped_witness:
  "row_pos 10 10 3 15 = Some (5 * 10 + 3) \<and>
   kron_row (\<lambda>i. 2) None 10 10 0 5 5 1 1 0 4 3 8 15
       (Some \<lparr>k_r1 = Some 0, k_v1 = 0, k_area = 0, k_flag = 0\<rparr>) =
     Some (for_loop 3 8
             (\<lambda>ix. kron_pixel (\<lambda>i. 2) None 0 5 5 1 1 0 4 15 (pixel_index 10 10 (ix, 15)) ix)
             \<lparr>k_r1 = Some 0, k_v1 = 0, k_area = 0, k_flag = 0\<rparr>) \<and>
   circann_row (scan_ctx (\<lambda>i. 3) None None True 0 10 10 5 5 1 1 1) 3 8 15
       (Some \<lparr>s_sum = [0], s_sumvar = [0], s_area = [0], s_maskarea = [0], s_flag = 0,
              s_varpix = 0, s_ismasked = False\<rparr>) =
     for_loop 3 8
       (\<lambda>ix so. Option.bind so
                   (circann_pixel (scan_ctx (\<lambda>i. 3) None None True 0 10 10 5 5 1 1 1) 15
                      (pixel_index 10 10 (ix, 15)) ix))
       (Some \<lparr>s_sum = [0], s_sumvar = [0], s_area = [0], s_maskarea = [0], s_flag = 0,
              s_varpix = 0, s_ismasked = False\<rparr>) \<and>
   boxextent 5 5 2 2 10 10 0 = Some (3, 8, 3, 8, 0) \<and>
   boxextent_ellipse 5 5 1 1 0 2 10 10 0 = Some (3, 8, 3, 8, 0) \<and>
   pixel_index 10 10 (4, 7) = 7 * 10 + 4 \<and>
   sep_set_ellipse (\<lambda>i. 0) 10 10 5 5 1 1 0 2 9 =
     Some (fold (\<lambda>p arr. if kron_rpix2 5 5 1 1 0 p \<le> 2 * 2 then arr(pixel_index 10 10 p := 9)
                          else arr)
             (box_pixels 3 8 3 8) (\<lambda>i. 0))"
proof -
  let ?c = "scan_ctx (\<lambda>i. 3) None None True 0 10 10 5 5 1 1 1"
  have h: "(0::int) \<le> 15 \<and> (0::int) < 10 \<and> in_int ((15 mod 10) * 10) \<and>
      in_int ((15 mod 10) * 10 + 3)"
    by (simp add: in_int_def)
  have cw: "cx_w ?c = 10 \<and> cx_h ?c = 10" by (simp add: scan_ctx_def)
  have b: "boxextent 5 5 2 2 10 10 0 = Some (3, 8, 3, 8, 0)"
    by (simp add: boxextent_def c_int_def c_trunc_def in_int_def Let_def)
  have e: "boxextent_ellipse 5 5 1 1 0 2 10 10 0 = Some (3, 8, 3, 8, 0)"
    by (simp add: boxextent_ellipse_def boxextent_def c_int_def c_trunc_def in_int_def Let_def)
  have m: "(4, 7) \<in> set (box_pixels 3 8 3 8)" by (simp add: box_pixels_mem)
  have r: "(0::int) \<le> 10 \<and> (10::int) * 10 + 3 < 2 ^ 31" by simp
  note t1 = row_addressing_clamped [where iy = 15 and h = 10 and w = 10 and xmin = 3
      and pixval = "\<lambda>i. 2" and maskval = None and maskthresh = 0 and x = 5 and y = 5 and cxx = 1
      and cyy = 1 and cxy = 0 and ?r2.0 = 4 and xmax = 8
      and kst = "\<lparr>k_r1 = Some 0, k_v1 = 0, k_area = 0, k_flag = 0\<rparr>" and c = ?c
      and st = "\<lparr>s_sum = [0], s_sumvar = [0], s_area = [0], s_maskarea = [0], s_flag = 0,
              s_varpix = 0, s_ismasked = False\<rparr>", THEN conjunct1, rule_format, OF h]
  note t2 = row_addressing_clamped [where x = 5 and y = 5 and rx = 2 and ry = 2 and w = 10
      and h = 10 and flag = 0 and xmin = 3 and xmax = 8 and ymin = 3 and ymax = 8 and flag' = 0
      and cxx = 1 and cyy = 1 and cxy = 0 and r = 2 and arr = "\<lambda>i. 0" and val = 9,
      THEN conjunct2]
  from t2 b have t3: "\<forall>p \<in> set (box_pixels 3 8 3 8).
      0 \<le> snd p \<and> snd p < 10 \<and> pixel_index 10 10 p = snd p * 10 + fst p" by blast
  from t2 e r have t4: "sep_set_ellipse (\<lambda>i. 0) 10 10 5 5 1 1 0 2 9 =
     Some (fold (\<lambda>p arr. if kron_rpix2 5 5 1 1 0 p \<le> 2 * 2 then arr(pixel_index 10 10 p := 9)
                          else arr)
             (box_pixels 3 8 3 8) (\<lambda>i. 0))" by blast
  from t3 m have t5: "pixel_index 10 10 (4, 7) = 7 * 10 + 4" by fastforce
  from t1 cw have t6: "circann_row ?c 3 8 15
       (Some \<lparr>s_sum = [0], s_sumvar = [0], s_area = [0], s_maskarea = [0], s_flag = 0,
              s_varpix = 0, s_ismasked = False\<rparr>) =
     for_loop 3 8
       (\<lambda>ix so. Option.bind so (circann_pixel ?c 15 (pixel_index 10 10 (ix, 15)) ix))
       (Some \<lparr>s_sum = [0], s_sumvar = [0], s_area = [0], s_maskarea = [0], s_flag = 0,
              s_varpix = 0, s_ismasked = False\<rparr>)" by blast
  from t1 have t7: "row_pos 10 10 3 15 = Some (5 * 10 + 3)" by simp
  show ?thesis using t1 t4 t5 t6 t7 b e by blast
qed

text \<open>
  C9 as stated has the rows of a window addressed modulo its height in every scanning
  operation, so that a row beyond the height is found at its remainder. For a window of
  10 rows of 10 pixels and a circle of radius 1 centred on the pixel \<open>(5, 15)\<close>, which
  windowed addressing places at the element \<open>(15 mod 10) * 10 + 5 = 55\<close>, the box is
  clamped to the rows from 14 to 10: no row is scanned. \<^verbatim>\<open>sep_set_ellipse\<close> leaves the
  array as it was and \<^verbatim>\<open>sep_kron_radius\<close> reports that all pixels are masked, on data that
  are 2 everywhere.
\<close>

theorem row_addressing_counterexample:
  "pixel_index 10 10 (5, 15) = 55 \<and>
   boxextent_ellipse 5 15 1 1 0 1 10 10 0 = Some (4, 7, 14, 10, SEP_APER_TRUNC) \<and>
   sep_set_ellipse (\<lambda>i. 0) 10 10 5 15 1 1 0 1 9 = Some (\<lambda>i. 0) \<and>
   sep_kron_radius (\<lambda>t. (RETURN_OK, id)) (\<lambda>i. 2 :: real) None 0 0 10 10 0 5 15 1 1 0 1 None =
     Some (RETURN_OK, Some 0, SEP_APER_TRUNC OR SEP_APER_ALLMASKED)"
proof -
  have e: "boxextent_ellipse 5 15 1 1 0 1 10 10 0 = Some (4, 7, 14, 10, SEP_APER_TRUNC)"
    by (simp add: boxextent_ellipse_def boxextent_def c_int_def c_trunc_def in_int_def Let_def)
  have l: "for_loop 14 10 body s = s" for body :: "int \<Rightarrow> 'a \<Rightarrow> 'a" and s
    by (rule for_loop_empty) simp
  show ?thesis
    using e by (simp add: pixel_index_def sep_set_ellipse_def sep_kron_radius_def Let_def l)
qed

subsection \<open>Failures of the multi-annulus summation\<close>

lemma memset0_length: "length (memset0 a n) = length a"
  by (simp add: memset0_def)

lemma memset0_nth: "k < length a \<Longrightarrow> memset0 a n ! k = (if int k < n then 0 else a ! k)"
  by (auto simp: memset0_def nth_append)

lemma multi_bad_params:
  "rmax < 0 \<or> n < 1 \<Longrightarrow>
   sep_sum_circann_multi gc data error mask_buf dtype edtype mdtype w h maskthresh gain inflag
     x y rmax n subpix sum_buf sumvar area maskarea flag =
   Some (ILLEGAL_APER_PARAMS,
         \<lparr>o_sum = sum_buf, o_sumvar = sumvar, o_area = area, o_maskarea = maskarea, o_flag = flag\<rparr>)"
  by (simp add: sep_sum_circann_multi_def)

lemma multi_bad_subpix:
  "\<not> (rmax < 0 \<or> n < 1) \<Longrightarrow> subpix < 1 \<Longrightarrow>
   sep_sum_circann_multi gc data error mask_buf dtype edtype mdtype w h maskthresh gain inflag
     x y rmax n subpix sum_buf sumvar area maskarea flag =
   Some (ILLEGAL_SUBPIX,
         \<lparr>o_sum = sum_buf, o_sumvar = sumvar, o_area = area, o_maskarea = maskarea, o_flag = flag\<rparr>)"
  by (simp add: sep_sum_circann_multi_def)

lemma multi_bad_converter:
  assumes "\<not> (rmax < 0 \<or> n < 1)" "\<not> subpix < 1"
    and "converters_status gc (error \<noteq> None) (mask_buf \<noteq> None) dtype edtype mdtype \<noteq> RETURN_OK"
  shows "sep_sum_circann_multi gc data error mask_buf dtype edtype mdtype w h maskthresh gain inflag
     x y rmax n subpix sum_buf sumvar area maskarea flag =
   Some (converters_status gc (error \<noteq> None) (mask_buf \<noteq> None) dtype edtype mdtype,
         \<lparr>o_sum = memset0 sum_buf n, o_sumvar = memset0 sumvar n, o_area = memset0 area n,
          o_maskarea = (if mask_buf \<noteq> None then memset0 maskarea n else maskarea), o_flag = 0\<rparr>)"
  using assms
  by (simp add: sep_sum_circann_multi_def converters_status_def Let_def split_beta split: if_splits)

lemma multi_ok_status:
  assumes "\<not> (rmax < 0 \<or> n < 1)" "\<not> subpix < 1"
    and "converters_status gc (error \<noteq> None) (mask_buf \<noteq> None) dtype edtype mdtype = RETURN_OK"
    and "sep_sum_circann_multi gc data error mask_buf dtype edtype mdtype w h maskthresh gain inflag
     x y rmax n subpix sum_buf sumvar area maskarea flag = Some (status, out)"
  shows "status = RETURN_OK"
  using assms
  by (simp add: sep_sum_circann_multi_def converters_status_def Let_def split_beta
      split: if_splits option.splits prod.splits)


text \<open>
  C8 (as amended). Every failure of \<^verbatim>\<open>sep_sum_circann_multi\<close> is decided before the pixel
  scan: with \<open>rmax < 0\<close> or \<open>n < 1\<close> it returns \<^verbatim>\<open>ILLEGAL_APER_PARAMS\<close>, otherwise with
  \<open>subpix < 1\<close> it returns \<^verbatim>\<open>ILLEGAL_SUBPIX\<close>, and in both cases the output arrays and the
  flag are as they were; otherwise, when the resolution of a converter fails, it returns
  that status with the first \<open>n\<close> entries of sum, sumvar and area set to zero, and those
  of maskarea set to zero when a mask buffer is supplied and maskarea as it was when
  there is none. When no converter fails, a call that returns returns \<^verbatim>\<open>RETURN_OK\<close>.
\<close>

theorem sep_sum_circann_multi_failures:
  "(rmax < 0 \<or> n < 1 \<longrightarrow>
      sep_sum_circann_multi gc data error mask_buf dtype edtype mdtype w h maskthresh gain inflag
        x y rmax n subpix sum_buf sumvar area maskarea flag =
      Some (ILLEGAL_APER_PARAMS,
            \<lparr>o_sum = sum_buf, o_sumvar = sumvar, o_area = area, o_maskarea = maskarea,
             o_flag = flag\<rparr>)) \<and>
   (\<not> (rmax < 0 \<or> n < 1) \<and> subpix < 1 \<longrightarrow>
      sep_sum_circann_multi gc data error mask_buf dtype edtype mdtype w h maskthresh gain inflag
        x y rmax n subpix sum_buf sumvar area maskarea flag =
      Some (ILLEGAL_SUBPIX,
            \<lparr>o_sum = sum_buf, o_sumvar = sumvar, o_area = area, o_maskarea = maskarea,
             o_flag = flag\<rparr>)) \<and>
   (\<not> (rmax < 0 \<or> n < 1) \<and> \<not> subpix < 1 \<and>
    converters_status gc (error \<noteq> None) (mask_buf \<noteq> None) dtype edtype mdtype \<noteq> RETURN_OK \<longrightarrow>
      sep_sum_circann_multi gc data error mask_buf dtype edtype mdtype w h maskthresh gain inflag
        x y rmax n subpix sum_buf sumvar area maskarea flag =
      Some (converters_status gc (error \<noteq> None) (mask_buf \<noteq> None) dtype edtype mdtype,
            \<lparr>o_sum = memset0 sum_buf n, o_sumvar = memset0 sumvar n, o_area = memset0 area n,
             o_maskarea = (if mask_buf \<noteq> None then memset0 maskarea n else maskarea),
             o_flag = 0\<rparr>)) \<and>
   (\<not> (rmax < 0 \<or> n < 1) \<and> \<not> subpix < 1 \<and>
    converters_status gc (error \<noteq> None) (mask_buf \<noteq> None) dtype edtype mdtype = RETURN_OK \<longrightarrow>
      (\<forall>status out.
          sep_sum_circann_multi gc data error mask_buf dtype edtype mdtype w h maskthresh gain
            inflag x y rmax n subpix sum_buf sumvar area maskarea flag = Some (status, out)
          \<longrightarrow> status = RETURN_OK)) \<and>
   length (memset0 a n) = length a \<and>
   (\<forall>k<length a. memset0 a n ! k = (if int k < n then 0 else a ! k))"
  using multi_bad_params [of rmax n gc data error mask_buf dtype edtype mdtype w h maskthresh gain
      inflag x y subpix sum_buf sumvar area maskarea flag]
    multi_bad_subpix [of rmax n subpix gc data error mask_buf dtype edtype mdtype w h maskthresh
      gain inflag x y sum_buf sumvar area maskarea flag]
    multi_bad_converter [of rmax n subpix gc error mask_buf dtype edtype mdtype data w h
      maskthresh gain inflag x y sum_buf sumvar area maskarea]
    multi_ok_status [of rmax n subpix gc error mask_buf dtype edtype mdtype data w h maskthresh
      gain inflag x y sum_buf sumvar area maskarea flag]
    memset0_length [of a n] memset0_nth [of _ a n]
  by blast

text \<open>
  C8 as stated has all four arrays zeroed when a converter fails. Without a mask buffer
  the code does not clear maskarea: with an unsupported data type, no error and no mask
  buffer, the entries of sum, sumvar and area are set to zero and maskarea keeps its 7.
\<close>

theorem sep_sum_circann_multi_failures_counterexample:
  "sep_sum_circann_multi (\<lambda>t. if t = 42 then (RETURN_OK, id) else (ILLEGAL_DTYPE, id))
     (\<lambda>i. 0 :: real) None None 0 0 0 10 10 0 0 0 5 5 1 1 1 [7] [7] [7] [7] 3 =
   Some (ILLEGAL_DTYPE,
         \<lparr>o_sum = [0], o_sumvar = [0], o_area = [0], o_maskarea = [7], o_flag = 0\<rparr>) \<and>
   [7] ! 0 \<noteq> (0 :: real)"
  by (simp add: sep_sum_circann_multi_def memset0_def)

theorem sep_sum_circann_multi_failures_witness:
  "sep_sum_circann_multi (\<lambda>t. if t = 42 then (RETURN_OK, id) else (ILLEGAL_DTYPE, id))
     (\<lambda>i. 0 :: real) None None 42 42 42 10 10 0 0 0 5 5 (- 1) 1 1 [7] [7] [7] [7] 3 =
   Some (ILLEGAL_APER_PARAMS,
         \<lparr>o_sum = [7], o_sumvar = [7], o_area = [7], o_maskarea = [7], o_flag = 3\<rparr>) \<and>
   sep_sum_circann_multi (\<lambda>t. if t = 42 then (RETURN_OK, id) else (ILLEGAL_DTYPE, id))
     (\<lambda>i. 0 :: real) None None 42 42 42 10 10 0 0 0 5 5 1 1 0 [7] [7] [7] [7] 3 =
   Some (ILLEGAL_SUBPIX,
         \<lparr>o_sum = [7], o_sumvar = [7], o_area = [7], o_maskarea = [7], o_flag = 3\<rparr>) \<and>
   sep_sum_circann_multi (\<lambda>t. if t = 42 then (RETURN_OK, id) else (ILLEGAL_DTYPE, id))
     (\<lambda>i. 0 :: real) None (Some (\<lambda>i. 0)) 42 42 0 10 10 0 0 0 5 5 1 1 1 [7] [7] [7] [7] 3 =
   Some (ILLEGAL_DTYPE,
         \<lparr>o_sum = [0], o_sumvar = [0], o_area = [0], o_maskarea = [0], o_flag = 0\<rparr>) \<and>
   fst (the (sep_sum_circann_multi (\<lambda>t. if t = 42 then (RETURN_OK, id) else (ILLEGAL_DTYPE, id))
     (\<lambda>i. 0 :: real) None None 42 42 42 0 0 0 0 0 0 0 1 1 1 [7] [7] [7] [7] 3)) = RETURN_OK"
proof -
  let ?gc = "\<lambda>t::int. if t = 42 then (RETURN_OK, id :: real \<Rightarrow> real) else (ILLEGAL_DTYPE, id)"
  have c3: "converters_status ?gc (None \<noteq> (None :: (int \<Rightarrow> real) option))
      (Some (\<lambda>i::int. 0 :: real) \<noteq> None) 42 42 0 = ILLEGAL_DTYPE"
    by (simp add: converters_status_def)
  have c4: "converters_status ?gc (None \<noteq> (None :: (int \<Rightarrow> real) option))
      (None \<noteq> (None :: (int \<Rightarrow> real) option)) 42 42 42 = RETURN_OK"
    by (simp add: converters_status_def)
  have m: "memset0 [7] 1 = [0]" by (simp add: memset0_def)
  have b: "boxextent 0 0 (1 + 1.5) (1 + 1.5) 0 0 0 = Some (0, 0, 0, 0, SEP_APER_TRUNC)"
    by (simp add: boxextent_def c_int_def c_trunc_def in_int_def Let_def)
  have ev: "\<exists>out. sep_sum_circann_multi ?gc (\<lambda>i. 0 :: real) None None 42 42 42 0 0 0 0 0 0 0 1 1 1
      [7] [7] [7] [7] 3 = Some (RETURN_OK, out)"
    using b
    by (simp add: sep_sum_circann_multi_def Let_def circann_scan_def for_loop.simps
        correct_for_masked_def)
  have "sep_sum_circann_multi ?gc (\<lambda>i. 0 :: real) None None 42 42 42 10 10 0 0 0 5 5 (- 1) 1 1
      [7] [7] [7] [7] 3 =
    Some (ILLEGAL_APER_PARAMS,
         \<lparr>o_sum = [7], o_sumvar = [7], o_area = [7], o_maskarea = [7], o_flag = 3\<rparr>)"
    using sep_sum_circann_multi_failures [where rmax = "- 1" and n = 1 and subpix = 1 and gc = ?gc
        and data = "\<lambda>i. 0" and error = None and mask_buf = "None" and dtype = 42 and edtype = 42
        and mdtype = 42 and w = 10 and h = 10 and maskthresh = 0 and gain = 0 and inflag = 0
        and x = 5 and y = 5 and sum_buf = "[7]" and sumvar = "[7]" and area = "[7]"
        and maskarea = "[7]" and flag = 3]
    by simp
  moreover have "sep_sum_circann_multi ?gc (\<lambda>i. 0 :: real) None None 42 42 42 10 10 0 0 0 5 5 1 1 0
      [7] [7] [7] [7] 3 =
    Some (ILLEGAL_SUBPIX,
         \<lparr>o_sum = [7], o_sumvar = [7], o_area = [7], o_maskarea = [7], o_flag = 3\<rparr>)"
    using sep_sum_circann_multi_failures [where rmax = "1" and n = 1 and subpix = 0 and gc = ?gc
        and data = "\<lambda>i. 0" and error = None and mask_buf = "None" and dtype = 42 and edtype = 42
        and mdtype = 42 and w = 10 and h = 10 and maskthresh = 0 and gain = 0 and inflag = 0
        and x = 5 and y = 5 and sum_buf = "[7]" and sumvar = "[7]" and area = "[7]"
        and maskarea = "[7]" and flag = 3]
    by simp
  moreover have "sep_sum_circann_multi ?gc (\<lambda>i. 0 :: real) None (Some (\<lambda>i. 0)) 42 42 0 10 10 0 0 0
      5 5 1 1 1 [7] [7] [7] [7] 3 =
    Some (ILLEGAL_DTYPE,
         \<lparr>o_sum = [0], o_sumvar = [0], o_area = [0], o_maskarea = [0], o_flag = 0\<rparr>)"
    using sep_sum_circann_multi_failures [where rmax = "1" and n = 1 and subpix = 1 and gc = ?gc
        and data = "\<lambda>i. 0" and error = None and mask_buf = "Some (\<lambda>i. 0)" and dtype = 42 and edtype = 42
        and mdtype = 0 and w = 10 and h = 10 and maskthresh = 0 and gain = 0 and inflag = 0
        and x = 5 and y = 5 and sum_buf = "[7]" and sumvar = "[7]" and area = "[7]"
        and maskarea = "[7]" and flag = 3] c3 m
    by simp
  moreover have "fst (the (sep_sum_circann_multi ?gc (\<lambda>i. 0 :: real) None None 42 42 42 0 0 0 0 0
      0 0 1 1 1 [7] [7] [7] [7] 3)) = RETURN_OK"
    using sep_sum_circann_multi_failures [where rmax = "1" and n = 1 and subpix = 1 and gc = ?gc
        and data = "\<lambda>i. 0" and error = None and mask_buf = "None" and dtype = 42 and edtype = 42
        and mdtype = 42 and w = 0 and h = 0 and maskthresh = 0 and gain = 0 and inflag = 0
        and x = 0 and y = 0 and sum_buf = "[7]" and sumvar = "[7]" and area = "[7]"
        and maskarea = "[7]" and flag = 3] c4 ev
    by auto
  ultimately show ?thesis by blast
qed


subsection \<open>Contributions of the pixels to the annuli\<close>

text \<open>
  Where the bin indices and the row offsets are values of \<^verbatim>\<open>int\<close>, the scan of
  \<^verbatim>\<open>sep_sum_circann_multi\<close> is defined and adds to the accumulators of each bin the weights
  of the specification. The lemmas follow the statements of the scan from the
  innermost outwards.
\<close>

lemma c_int_nonneg: "0 \<le> d \<Longrightarrow> in_int \<lfloor>d\<rfloor> \<Longrightarrow> c_int d = Some \<lfloor>d\<rfloor>"
  by (simp add: c_int_def c_trunc_def)

lemma c_trunc_nonneg: "0 \<le> d \<Longrightarrow> c_trunc d = \<lfloor>d\<rfloor>"
  by (simp add: c_trunc_def)

lemma sum_list_if_mult:
  "(\<Sum>i\<leftarrow>xs. if P i then a * f else 0) = (\<Sum>i\<leftarrow>xs. if P i then a else 0) * (f::real)"
  by (induction xs) (simp_all add: algebra_simps)

lemma sum_list_if_mult2:
  "(\<Sum>k\<leftarrow>ys. \<Sum>i\<leftarrow>xs. if P i k then a * f else 0)
     = (\<Sum>k\<leftarrow>ys. \<Sum>i\<leftarrow>xs. if P i k then a else 0) * (f::real)"
  by (induction ys) (simp_all add: sum_list_if_mult algebra_simps)

lemma sum_list_upt_Suc_shift:
  "(\<Sum>i\<leftarrow>[0..<Suc k]. g i) = g 0 + (\<Sum>i\<leftarrow>[0..<k]. (g (Suc i) :: real))"
proof -
  have "[0..<Suc k] = 0 # map Suc [0..<k]"
    by (simp only: upt_conv_Cons [of 0 "Suc k"] map_Suc_upt)
  then show ?thesis by (simp add: comp_def del: upt_Suc)
qed

lemma accumulate_meter:
  assumes "bins_ok (cx_n c) st" "0 \<le> b" "j < nat (cx_n c)"
  shows "\<exists>st'. accumulate c b wt pix st = Some st' \<and> bins_ok (cx_n c) st' \<and>
           s_ismasked st' = s_ismasked st \<and> s_varpix st' = s_varpix st \<and>
           meter_val q st' j =
             meter_val q st j +
             (if b = int j then wt * meter_factor q (s_ismasked st) pix (s_varpix st) else 0)"
proof -
  have e: "nat b = j \<longleftrightarrow> b = int j" using assms(2) by auto
  have lt: "b = int j \<Longrightarrow> b < cx_n c" using assms(3) by linarith
  show ?thesis
    using assms e lt
    by (cases q) (auto simp: accumulate_def add_at_def Let_def bins_ok_def nth_list_update)
qed

lemma sx_loop_meter:
  assumes "bins_ok (cx_n c) st" "j < nat (cx_n c)" "0 \<le> cx_stepdens c" "0 \<le> dy2"
    and "\<forall>i<k. in_int \<lfloor>sqrt ((dx1 + of_nat i * cx_scale c) * (dx1 + of_nat i * cx_scale c) + dy2)
                        * cx_stepdens c\<rfloor>"
  shows "\<exists>st'. sx_loop c k dx1 dy2 pix st = Some st' \<and> bins_ok (cx_n c) st' \<and>
           s_ismasked st' = s_ismasked st \<and> s_varpix st' = s_varpix st \<and>
           meter_val q st' j =
             meter_val q st j +
             (\<Sum>i\<leftarrow>[0..<k].
                if \<lfloor>sqrt ((dx1 + of_nat i * cx_scale c) * (dx1 + of_nat i * cx_scale c) + dy2)
                     * cx_stepdens c\<rfloor> = int j
                then cx_scale2 c * meter_factor q (s_ismasked st) pix (s_varpix st) else 0)"
  using assms(1,5)
proof (induction k arbitrary: dx1 st)
  case 0
  then show ?case by simp
next
  case (Suc k)
  define B where "B = (\<lambda>d. \<lfloor>sqrt (d * d + dy2) * cx_stepdens c\<rfloor>)"
  define fac where "fac = cx_scale2 c * meter_factor q (s_ismasked st) pix (s_varpix st)"
  have v0: "0 \<le> sqrt (dx1 * dx1 + dy2) * cx_stepdens c"
    using assms(3,4) by simp
  have "in_int (B (dx1 + of_nat 0 * cx_scale c))"
    unfolding B_def using Suc.prems(2) by blast
  then have r0: "in_int (B dx1)" by simp
  have ci: "c_int (sqrt (dx1 * dx1 + dy2) * cx_stepdens c) = Some (B dx1)"
    unfolding B_def using v0 r0 [unfolded B_def] by (rule c_int_nonneg)
  have b0: "0 \<le> B dx1" unfolding B_def using v0 by simp
  from accumulate_meter [OF Suc.prems(1) b0 assms(2), of "cx_scale2 c" pix q]
  obtain st1 where a: "accumulate c (B dx1) (cx_scale2 c) pix st = Some st1"
    "bins_ok (cx_n c) st1" "s_ismasked st1 = s_ismasked st" "s_varpix st1 = s_varpix st"
    "meter_val q st1 j = meter_val q st j + (if B dx1 = int j then fac else 0)"
    unfolding fac_def by blast
  have shift: "dx1 + cx_scale c + of_nat i * cx_scale c = dx1 + of_nat (Suc i) * cx_scale c" for i
    by (simp add: algebra_simps)
  have rng': "\<forall>i<k. in_int \<lfloor>sqrt ((dx1 + cx_scale c + of_nat i * cx_scale c)
                                   * (dx1 + cx_scale c + of_nat i * cx_scale c) + dy2)
                        * cx_stepdens c\<rfloor>"
    unfolding shift using Suc.prems(2) by auto
  from Suc.IH [OF a(2) rng']
  obtain st' where ih: "sx_loop c k (dx1 + cx_scale c) dy2 pix st1 = Some st'"
    "bins_ok (cx_n c) st'" "s_ismasked st' = s_ismasked st1" "s_varpix st' = s_varpix st1"
    "meter_val q st' j = meter_val q st1 j +
       (\<Sum>i\<leftarrow>[0..<k]. if B (dx1 + of_nat (Suc i) * cx_scale c) = int j then fac else 0)"
    unfolding shift B_def fac_def a(3,4) by blast
  have run: "sx_loop c (Suc k) dx1 dy2 pix st = Some st'"
    by (simp add: ci a(1) ih(1))
  have "(\<Sum>i\<leftarrow>[0..<Suc k]. if B (dx1 + of_nat i * cx_scale c) = int j then fac else 0)
      = (if B dx1 = int j then fac else 0) +
        (\<Sum>i\<leftarrow>[0..<k]. if B (dx1 + of_nat (Suc i) * cx_scale c) = int j then fac else 0)"
    by (subst sum_list_upt_Suc_shift) simp
  then have "meter_val q st' j = meter_val q st j +
      (\<Sum>i\<leftarrow>[0..<Suc k]. if B (dx1 + of_nat i * cx_scale c) = int j then fac else 0)"
    using ih(5) a(5) by simp
  then show ?case
    using run ih(2,3,4) a(3,4) unfolding B_def fac_def
    by (intro exI [of _ st']) (simp del: upt_Suc)
qed

lemma sy_loop_meter:
  assumes "bins_ok (cx_n c) st" "j < nat (cx_n c)" "0 \<le> cx_stepdens c"
    and "\<forall>ky<k. \<forall>kx<nat (cx_subpix c).
           in_int \<lfloor>sqrt ((dx + of_nat kx * cx_scale c) * (dx + of_nat kx * cx_scale c)
                          + (dy + of_nat ky * cx_scale c) * (dy + of_nat ky * cx_scale c))
                    * cx_stepdens c\<rfloor>"
  shows "\<exists>st'. sy_loop c k dx dy pix st = Some st' \<and> bins_ok (cx_n c) st' \<and>
           s_ismasked st' = s_ismasked st \<and> s_varpix st' = s_varpix st \<and>
           meter_val q st' j =
             meter_val q st j +
             (\<Sum>ky\<leftarrow>[0..<k]. \<Sum>kx\<leftarrow>[0..<nat (cx_subpix c)].
                if \<lfloor>sqrt ((dx + of_nat kx * cx_scale c) * (dx + of_nat kx * cx_scale c)
                           + (dy + of_nat ky * cx_scale c) * (dy + of_nat ky * cx_scale c))
                     * cx_stepdens c\<rfloor> = int j
                then cx_scale2 c * meter_factor q (s_ismasked st) pix (s_varpix st) else 0)"
  using assms(1,4)
proof (induction k arbitrary: dy st)
  case 0
  then show ?case by simp
next
  case (Suc k)
  define B where "B = (\<lambda>e kx. \<lfloor>sqrt ((dx + of_nat kx * cx_scale c) * (dx + of_nat kx * cx_scale c)
                                      + e * e) * cx_stepdens c\<rfloor>)"
  define fac where "fac = cx_scale2 c * meter_factor q (s_ismasked st) pix (s_varpix st)"
  have d0: "0 \<le> dy * dy" by simp
  have "\<forall>kx<nat (cx_subpix c). in_int (B (dy + of_nat 0 * cx_scale c) kx)"
    unfolding B_def using Suc.prems(2) by blast
  then have r0: "\<forall>kx<nat (cx_subpix c). in_int (B dy kx)" by simp
  from sx_loop_meter [OF Suc.prems(1) assms(2,3) d0 r0 [unfolded B_def], of pix q]
  obtain st1 where a: "sx_loop c (nat (cx_subpix c)) dx (dy * dy) pix st = Some st1"
    "bins_ok (cx_n c) st1" "s_ismasked st1 = s_ismasked st" "s_varpix st1 = s_varpix st"
    "meter_val q st1 j = meter_val q st j +
       (\<Sum>kx\<leftarrow>[0..<nat (cx_subpix c)]. if B dy kx = int j then fac else 0)"
    unfolding B_def fac_def by blast
  have shift: "dy + cx_scale c + of_nat i * cx_scale c = dy + of_nat (Suc i) * cx_scale c" for i
    by (simp add: algebra_simps)
  have rng': "\<forall>ky<k. \<forall>kx<nat (cx_subpix c).
           in_int \<lfloor>sqrt ((dx + of_nat kx * cx_scale c) * (dx + of_nat kx * cx_scale c)
                          + (dy + cx_scale c + of_nat ky * cx_scale c)
                            * (dy + cx_scale c + of_nat ky * cx_scale c))
                    * cx_stepdens c\<rfloor>"
    unfolding shift using Suc.prems(2) by auto
  from Suc.IH [OF a(2) rng']
  obtain st' where ih: "sy_loop c k dx (dy + cx_scale c) pix st1 = Some st'"
    "bins_ok (cx_n c) st'" "s_ismasked st' = s_ismasked st1" "s_varpix st' = s_varpix st1"
    "meter_val q st' j = meter_val q st1 j +
       (\<Sum>ky\<leftarrow>[0..<k]. \<Sum>kx\<leftarrow>[0..<nat (cx_subpix c)].
          if B (dy + of_nat (Suc ky) * cx_scale c) kx = int j then fac else 0)"
    unfolding shift B_def fac_def a(3,4) by blast
  have run: "sy_loop c (Suc k) dx dy pix st = Some st'"
    by (simp add: a(1) ih(1))
  have "(\<Sum>ky\<leftarrow>[0..<Suc k]. \<Sum>kx\<leftarrow>[0..<nat (cx_subpix c)].
          if B (dy + of_nat ky * cx_scale c) kx = int j then fac else 0)
      = (\<Sum>kx\<leftarrow>[0..<nat (cx_subpix c)]. if B dy kx = int j then fac else 0) +
        (\<Sum>ky\<leftarrow>[0..<k]. \<Sum>kx\<leftarrow>[0..<nat (cx_subpix c)].
          if B (dy + of_nat (Suc ky) * cx_scale c) kx = int j then fac else 0)"
    by (subst sum_list_upt_Suc_shift) simp
  then have "meter_val q st' j = meter_val q st j +
      (\<Sum>ky\<leftarrow>[0..<Suc k]. \<Sum>kx\<leftarrow>[0..<nat (cx_subpix c)].
          if B (dy + of_nat ky * cx_scale c) kx = int j then fac else 0)"
    using ih(5) a(5) by simp
  then show ?case
    using run ih(2,3,4) a(3,4) unfolding B_def fac_def
    by (intro exI [of _ st']) (simp del: upt_Suc)
qed


lemma scan_ctx_fields:
  assumes "c = scan_ctx pixval ea mk es mt w h x y rmax n subpix"
  shows "cx_data c = pixval" "cx_errarray c = ea" "cx_mask c = mk" "cx_errisstd c = es"
    "cx_maskthresh c = mt" "cx_w c = w" "cx_h c = h" "cx_x c = x" "cx_y c = y" "cx_n c = n"
    "cx_subpix c = subpix" "cx_scale c = 1 / of_int subpix"
    "cx_scale2 c = 1 / of_int subpix * (1 / of_int subpix)"
    "cx_offset c = 0.5 * (1 / of_int subpix - 1)"
    "cx_r_out2 c = (rmax + 1.5) * (rmax + 1.5)"
    "cx_step c = rmax / of_int n" "cx_stepdens c = 1 / (rmax / of_int n)"
    "cx_prevbinmargin c = 0.7072" "cx_nextbinmargin c = rmax / of_int n - 0.7072"
  unfolding assms scan_ctx_def by simp_all

lemma bin_of_floor: "\<lfloor>r * (1 / (rmax / of_int n))\<rfloor> = bin_of rmax n r"
  by (simp add: bin_of_def)

text \<open>
  The bin index of a distance below \<open>rmax + 5 / 2\<close> is a value of \<^verbatim>\<open>int\<close> when
  \<open>(rmax + 5 / 2) * n \<le> rmax * 2\<^sup>3\<^sup>1\<close>, and the centres of the sub-cells of a pixel within
  \<open>rmax + 3 / 2\<close> are at such a distance.
\<close>

lemma bin_in_int:
  fixes rmax d :: real
  assumes "0 < rmax" "1 \<le> n" "(rmax + 5 / 2) * of_int n \<le> rmax * 2 ^ 31"
    and "0 \<le> d" "d < rmax + 5 / 2"
  shows "0 \<le> d * (1 / (rmax / of_int n))" "in_int \<lfloor>d * (1 / (rmax / of_int n))\<rfloor>"
proof -
  have n0: "0 < real_of_int n" using assms(2) by simp
  have e: "d * (1 / (rmax / of_int n)) = d * of_int n / rmax" by simp
  have "d * of_int n < (rmax + 5 / 2) * of_int n" using assms(5) n0 by simp
  then have "d * of_int n < rmax * 2 ^ 31" using assms(3) by (rule less_le_trans)
  then have "d * of_int n < 2 ^ 31 * rmax" by (simp only: mult.commute)
  then have u: "d * of_int n / rmax < 2 ^ 31" using assms(1) by (simp add: pos_divide_less_eq)
  have l: "0 \<le> d * of_int n / rmax" using assms(1,4) n0 by simp
  have "\<lfloor>d * of_int n / rmax\<rfloor> < 2 ^ 31" using u by (simp add: floor_less_iff)
  moreover have "0 \<le> \<lfloor>d * of_int n / rmax\<rfloor>" using l by simp
  ultimately show "in_int \<lfloor>d * (1 / (rmax / of_int n))\<rfloor>" unfolding e in_int_def by simp
  show "0 \<le> d * (1 / (rmax / of_int n))" unfolding e by (rule l)
qed

lemma subcell_offset:
  assumes "1 \<le> subpix" "k < nat subpix"
  shows "\<bar>subcell_centre subpix d k - d\<bar> \<le> 1 / 2"
proof -
  have s0: "0 < real_of_int subpix" using assms(1) by simp
  have "int k + 1 \<le> subpix" using assms(2) by linarith
  then have "real_of_int (int k + 1) \<le> real_of_int subpix" by (simp only: of_int_le_iff)
  then have "real k + 1 \<le> real_of_int subpix" by simp
  then have "real k + 1 / 2 \<le> real_of_int subpix" by linarith
  define t where "t = (real k + 1 / 2) / real_of_int subpix"
  have u: "t \<le> 1" unfolding t_def using s0 \<open>real k + 1 / 2 \<le> real_of_int subpix\<close> by simp
  have l: "0 \<le> t" unfolding t_def using s0 by simp
  have "subcell_centre subpix d k - d = t - 1 / 2" by (simp add: subcell_centre_def t_def)
  then show ?thesis using u l by linarith
qed

lemma subcell_dist:
  assumes "1 \<le> subpix" "kx < nat subpix" "ky < nat subpix" "0 < rmax"
    and "dx * dx + dy * dy < (rmax + 3 / 2) * (rmax + 3 / 2)"
  shows "sqrt (subcell_centre subpix dx kx * subcell_centre subpix dx kx
               + subcell_centre subpix dy ky * subcell_centre subpix dy ky) < rmax + 5 / 2"
proof -
  define ex where "ex = subcell_centre subpix dx kx - dx"
  define ey where "ey = subcell_centre subpix dy ky - dy"
  have ax: "\<bar>ex\<bar> \<le> 1 / 2" unfolding ex_def using assms(1,2) by (rule subcell_offset)
  have ay: "\<bar>ey\<bar> \<le> 1 / 2" unfolding ey_def using assms(1,3) by (rule subcell_offset)
  have "ex\<^sup>2 \<le> (1 / 2)\<^sup>2" using ax by (simp add: abs_le_square_iff [symmetric])
  moreover have "ey\<^sup>2 \<le> (1 / 2)\<^sup>2" using ay by (simp add: abs_le_square_iff [symmetric])
  ultimately have "ex\<^sup>2 + ey\<^sup>2 \<le> 1\<^sup>2" by (simp add: power2_eq_square)
  then have s1: "sqrt (ex\<^sup>2 + ey\<^sup>2) \<le> 1" by (intro real_le_lsqrt) simp_all
  have "dx\<^sup>2 + dy\<^sup>2 < (rmax + 3 / 2)\<^sup>2" using assms(5) by (simp add: power2_eq_square)
  then have "sqrt (dx\<^sup>2 + dy\<^sup>2) < sqrt ((rmax + 3 / 2)\<^sup>2)" by (simp only: real_sqrt_less_iff)
  then have s2: "sqrt (dx\<^sup>2 + dy\<^sup>2) < rmax + 3 / 2" using assms(4) by simp
  have "sqrt ((dx + ex)\<^sup>2 + (dy + ey)\<^sup>2) \<le> sqrt (dx\<^sup>2 + dy\<^sup>2) + sqrt (ex\<^sup>2 + ey\<^sup>2)"
    by (rule real_sqrt_sum_squares_triangle_ineq)
  then have "sqrt ((dx + ex)\<^sup>2 + (dy + ey)\<^sup>2) < rmax + 5 / 2" using s1 s2 by linarith
  then show ?thesis by (simp add: ex_def ey_def power2_eq_square)
qed

lemma subcell_centre_eq:
  assumes "1 \<le> subpix"
  shows "d + 0.5 * (1 / of_int subpix - 1) + of_nat k * (1 / of_int subpix)
           = subcell_centre subpix d k"
  using assms by (simp add: subcell_centre_def field_simps)

lemma circann_pixel_meter:
  assumes rm: "0 < rmax" "1 \<le> n" "1 \<le> subpix"
    and rng: "(rmax + 5 / 2) * of_int n \<le> rmax * 2 ^ 31"
    and c: "c = scan_ctx pixval ea mk es mt w h x y rmax n subpix"
    and inv: "bins_ok n st" "mk = None \<longrightarrow> \<not> s_ismasked st" "ea = None \<longrightarrow> s_varpix st = v0"
    and j: "j < nat n"
  shows "\<exists>st'. circann_pixel c iy idx ix st = Some st' \<and> bins_ok n st' \<and>
           (mk = None \<longrightarrow> \<not> s_ismasked st') \<and> (ea = None \<longrightarrow> s_varpix st' = v0) \<and>
           meter_val q st' j = meter_val q st j +
             pixel_weight x y rmax n subpix (ix, iy) j *
             meter_factor q (pixel_masked c idx) (pixval idx) (pixel_varpix c v0 idx)"
proof -
  note cf = scan_ctx_fields [OF c]
  define dx dy where "dx = of_int ix - x" and "dy = of_int iy - y"
  define rpix2 where "rpix2 = dx * dx + dy * dy"
  have step_pos: "0 < rmax / of_int n" using rm(1,2) by simp
  have sd0: "0 \<le> cx_stepdens c" unfolding cf using rm(1,2) by simp
  have step_ne: "rmax / of_int n \<noteq> 0" using rm(1,2) by simp
  have r0: "0 \<le> rpix2" unfolding rpix2_def by simp
  show ?thesis
  proof (cases "rpix2 < (rmax + 1.5) * (rmax + 1.5)")
    case False
    then have "circann_pixel c iy idx ix st = Some st"
      by (simp add: circann_pixel_def Let_def cf dx_def dy_def rpix2_def)
    moreover have "pixel_weight x y rmax n subpix (ix, iy) j = 0"
      using False by (simp add: pixel_weight_def Let_def power2_eq_square dx_def dy_def rpix2_def)
    ultimately show ?thesis using inv by simp
  next
    case True
    then have near: "dx * dx + dy * dy < (rmax + 3 / 2) * (rmax + 3 / 2)"
      by (simp add: rpix2_def)
    define st1 where "st1 = (case ea of None \<Rightarrow> st
        | Some e \<Rightarrow> st\<lparr>s_varpix := (let v = e idx in if es then v * v else v)\<rparr>)"
    define st2 where "st2 = (case mk of None \<Rightarrow> st1
        | Some m \<Rightarrow> if m idx > mt
                   then st1\<lparr>s_flag := s_flag st1 OR SEP_APER_HASMASKED, s_ismasked := True\<rparr>
                   else st1\<lparr>s_ismasked := False\<rparr>)"
    have b2: "bins_ok n st2"
      using inv(1) by (auto simp: st1_def st2_def bins_ok_def split: option.splits)
    have m2: "s_ismasked st2 = pixel_masked c idx"
      using inv(2) by (auto simp: st1_def st2_def pixel_masked_def cf split: option.splits)
    have v2: "s_varpix st2 = pixel_varpix c v0 idx"
      using inv(3) by (auto simp: st1_def st2_def pixel_varpix_def cf split: option.splits)
    have q2: "meter_val q st2 j = meter_val q st j"
      by (cases q) (auto simp: st1_def st2_def split: option.splits)
    define d where "d = fmod (sqrt rpix2) (rmax / of_int n)"
    define fac where "fac = meter_factor q (pixel_masked c idx) (pixval idx) (pixel_varpix c v0 idx)"
    have res: "circann_pixel c iy idx ix st =
        (if d < 0.7072 \<or> d > rmax / of_int n - 0.7072
         then sy_loop c (nat subpix) (dx + cx_offset c) (dy + cx_offset c) (pixval idx) st2
         else (case c_int (sqrt rpix2 * cx_stepdens c) of
                 None \<Rightarrow> None
               | Some b \<Rightarrow> accumulate c b 1 (pixval idx) st2))"
      unfolding circann_pixel_def cf Let_def st1_def st2_def d_def rpix2_def dx_def dy_def
      using True [unfolded rpix2_def dx_def dy_def] step_ne
      by simp
    have W: "pixel_weight x y rmax n subpix (ix, iy) j =
        (if 0.7072 \<le> d \<and> d \<le> rmax / of_int n - 0.7072
         then (if bin_of rmax n (sqrt rpix2) = int j then 1 else 0)
         else (\<Sum>ky\<leftarrow>[0..<nat subpix]. \<Sum>kx\<leftarrow>[0..<nat subpix].
              if bin_of rmax n (sqrt (subcell_centre subpix dx kx * subcell_centre subpix dx kx
                                     + subcell_centre subpix dy ky * subcell_centre subpix dy ky))
                  = int j
              then 1 / (of_int subpix * of_int subpix) else 0))"
      unfolding pixel_weight_def Let_def power2_eq_square fst_conv snd_conv d_def rpix2_def
        dx_def dy_def
      using True [unfolded rpix2_def dx_def dy_def]
      by (simp only: if_True)
    have sc: "1 / of_int subpix * (1 / of_int subpix) = 1 / (real_of_int subpix * of_int subpix)"
      by simp
    have b2': "bins_ok (cx_n c) st2" using b2 by (simp add: cf)
    have j': "j < nat (cx_n c)" using j by (simp add: cf)
    have keep: "mk = None \<longrightarrow> \<not> s_ismasked st2" "ea = None \<longrightarrow> s_varpix st2 = v0"
      unfolding m2 v2 by (simp_all add: pixel_masked_def pixel_varpix_def cf)
    show ?thesis
    proof (cases "d < 0.7072 \<or> d > rmax / of_int n - 0.7072")
      case over: True
      have nw: "\<not> (0.7072 \<le> d \<and> d \<le> rmax / of_int n - 0.7072)" using over by linarith
      have cen: "\<And>e k. e + cx_offset c + of_nat k * cx_scale c = subcell_centre subpix e k"
        unfolding cf by (rule subcell_centre_eq [OF rm(3)])
      have sub: "\<forall>ky<nat (cx_subpix c). \<forall>kx<nat (cx_subpix c).
           in_int \<lfloor>sqrt ((dx + cx_offset c + of_nat kx * cx_scale c)
                            * (dx + cx_offset c + of_nat kx * cx_scale c)
                          + (dy + cx_offset c + of_nat ky * cx_scale c)
                            * (dy + cx_offset c + of_nat ky * cx_scale c))
                    * cx_stepdens c\<rfloor>"
      proof (intro allI impI)
        fix ky kx assume k: "ky < nat (cx_subpix c)" "kx < nat (cx_subpix c)"
        then have k': "kx < nat subpix" "ky < nat subpix" by (simp_all add: cf)
        note dist = subcell_dist [OF rm(3) k' rm(1) near]
        show "in_int \<lfloor>sqrt ((dx + cx_offset c + of_nat kx * cx_scale c)
                            * (dx + cx_offset c + of_nat kx * cx_scale c)
                          + (dy + cx_offset c + of_nat ky * cx_scale c)
                            * (dy + cx_offset c + of_nat ky * cx_scale c))
                    * cx_stepdens c\<rfloor>"
          unfolding cen unfolding cf
          by (rule bin_in_int(2) [OF rm(1,2) rng _ dist]) simp
      qed
      from sy_loop_meter [OF b2' j' sd0 sub, of "pixval idx" q]
      obtain st' where sy: "sy_loop c (nat (cx_subpix c)) (dx + cx_offset c) (dy + cx_offset c)
            (pixval idx) st2 = Some st'"
        "bins_ok (cx_n c) st'" "s_ismasked st' = s_ismasked st2" "s_varpix st' = s_varpix st2"
        "meter_val q st' j = meter_val q st2 j +
           (\<Sum>ky\<leftarrow>[0..<nat (cx_subpix c)]. \<Sum>kx\<leftarrow>[0..<nat (cx_subpix c)].
              if \<lfloor>sqrt ((dx + cx_offset c + of_nat kx * cx_scale c)
                            * (dx + cx_offset c + of_nat kx * cx_scale c)
                          + (dy + cx_offset c + of_nat ky * cx_scale c)
                            * (dy + cx_offset c + of_nat ky * cx_scale c))
                    * cx_stepdens c\<rfloor> = int j
              then cx_scale2 c * meter_factor q (s_ismasked st2) (pixval idx) (s_varpix st2)
              else 0)"
        by blast
      have "meter_val q st' j = meter_val q st2 j +
           (\<Sum>ky\<leftarrow>[0..<nat subpix]. \<Sum>kx\<leftarrow>[0..<nat subpix].
              if bin_of rmax n (sqrt (subcell_centre subpix dx kx * subcell_centre subpix dx kx
                                     + subcell_centre subpix dy ky * subcell_centre subpix dy ky))
                  = int j
              then 1 / (of_int subpix * of_int subpix) * fac else 0)"
        using sy(5) unfolding cen unfolding cf bin_of_floor m2 v2 sc fac_def [symmetric] .
      also have "\<dots> = meter_val q st2 j +
           (\<Sum>ky\<leftarrow>[0..<nat subpix]. \<Sum>kx\<leftarrow>[0..<nat subpix].
              if bin_of rmax n (sqrt (subcell_centre subpix dx kx * subcell_centre subpix dx kx
                                     + subcell_centre subpix dy ky * subcell_centre subpix dy ky))
                  = int j
              then 1 / (of_int subpix * of_int subpix) else 0) * fac"
        by (simp only: sum_list_if_mult2)
      also have "(\<Sum>ky\<leftarrow>[0..<nat subpix]. \<Sum>kx\<leftarrow>[0..<nat subpix].
              if bin_of rmax n (sqrt (subcell_centre subpix dx kx * subcell_centre subpix dx kx
                                     + subcell_centre subpix dy ky * subcell_centre subpix dy ky))
                  = int j
              then 1 / (of_int subpix * of_int subpix) else 0)
            = pixel_weight x y rmax n subpix (ix, iy) j"
        using nw by (simp only: W if_False)
      finally have "meter_val q st' j =
          meter_val q st j + pixel_weight x y rmax n subpix (ix, iy) j * fac"
        by (simp only: q2)
      moreover have "circann_pixel c iy idx ix st = Some st'"
        using res over sy(1) by (simp add: cf)
      moreover have "bins_ok n st'" using sy(2) by (simp add: cf)
      ultimately show ?thesis using sy(3,4) keep unfolding fac_def
        by (intro exI [of _ st']) simp
    next
      case whole: False
      have rp: "sqrt rpix2 < rmax + 5 / 2"
      proof -
        have "rpix2 < (rmax + 3 / 2)\<^sup>2" using near by (simp add: rpix2_def power2_eq_square)
        then have "sqrt rpix2 < sqrt ((rmax + 3 / 2)\<^sup>2)" by (simp only: real_sqrt_less_iff)
        then show ?thesis using rm(1) by simp
      qed
      have s0: "0 \<le> sqrt rpix2" using r0 by simp
      note bi = bin_in_int [OF rm(1,2) rng s0 rp]
      have ci: "c_int (sqrt rpix2 * cx_stepdens c) = Some (bin_of rmax n (sqrt rpix2))"
        unfolding cf bin_of_floor [symmetric] using bi by (rule c_int_nonneg)
      have b0: "0 \<le> bin_of rmax n (sqrt rpix2)"
        unfolding bin_of_floor [symmetric] using bi(1) by simp
      from accumulate_meter [OF b2' b0 j', of 1 "pixval idx" q]
      obtain st' where a: "accumulate c (bin_of rmax n (sqrt rpix2)) 1 (pixval idx) st2 = Some st'"
        "bins_ok (cx_n c) st'" "s_ismasked st' = s_ismasked st2" "s_varpix st' = s_varpix st2"
        "meter_val q st' j = meter_val q st2 j +
           (if bin_of rmax n (sqrt rpix2) = int j
            then 1 * meter_factor q (s_ismasked st2) (pixval idx) (s_varpix st2) else 0)"
        by blast
      have w: "0.7072 \<le> d \<and> d \<le> rmax / of_int n - 0.7072" using whole by linarith
      have "pixel_weight x y rmax n subpix (ix, iy) j
          = (if bin_of rmax n (sqrt rpix2) = int j then 1 else 0)"
        by (simp only: W w simp_thms if_True)
      then have "meter_val q st' j =
          meter_val q st j + pixel_weight x y rmax n subpix (ix, iy) j * fac"
        using a(5) by (simp add: q2 m2 v2 fac_def)
      moreover have "circann_pixel c iy idx ix st = Some st'"
        using res whole ci a(1) by simp
      moreover have "bins_ok n st'" using a(2) by (simp add: cf)
      ultimately show ?thesis using a(3,4) keep unfolding fac_def
        by (intro exI [of _ st']) simp
    qed
  qed
qed


lemma fold_bind_meter:
  assumes step: "\<And>a s. a \<in> set xs \<Longrightarrow> P s \<Longrightarrow> \<exists>s'. f a s = Some s' \<and> P s' \<and> m s' = m s + g a"
    and "P s"
  shows "\<exists>s'. fold (\<lambda>a so. Option.bind so (f a)) xs (Some s) = Some s' \<and> P s' \<and>
           (m s' :: real) = m s + sum_list (map g xs)"
  using assms
proof (induction xs arbitrary: s)
  case Nil
  then show ?case by simp
next
  case (Cons a xs)
  from Cons.prems(1) [of a s] Cons.prems(2)
  obtain s1 where 1: "f a s = Some s1" "P s1" "m s1 = m s + g a"
    by auto
  have "\<exists>s'. fold (\<lambda>a so. Option.bind so (f a)) xs (Some s1) = Some s' \<and> P s' \<and>
           m s' = m s1 + sum_list (map g xs)"
    using Cons.prems(1) 1(2) by (intro Cons.IH) simp_all
  then obtain s' where
    2: "fold (\<lambda>a so. Option.bind so (f a)) xs (Some s1) = Some s'" "P s'"
       "m s' = m s1 + sum_list (map g xs)" by blast
  show ?case using 1 2 by simp
qed

lemma sum_list_box_pixels:
  "(\<Sum>p\<leftarrow>box_pixels xmin xmax ymin ymax. (G p :: real))
     = (\<Sum>iy\<leftarrow>[ymin..ymax - 1]. \<Sum>ix\<leftarrow>[xmin..xmax - 1]. G (ix, iy))"
proof -
  have "\<And>ys. (\<Sum>p\<leftarrow>concat (map (\<lambda>iy. map (\<lambda>ix. (ix, iy)) [xmin..xmax - 1]) ys). G p)
      = (\<Sum>iy\<leftarrow>ys. \<Sum>ix\<leftarrow>[xmin..xmax - 1]. G (ix, iy))"
  proof -
    fix ys show "(\<Sum>p\<leftarrow>concat (map (\<lambda>iy. map (\<lambda>ix. (ix, iy)) [xmin..xmax - 1]) ys). G p)
      = (\<Sum>iy\<leftarrow>ys. \<Sum>ix\<leftarrow>[xmin..xmax - 1]. G (ix, iy))"
      by (induction ys) (simp_all add: comp_def)
  qed
  then show ?thesis by (simp add: box_pixels_def)
qed

lemma circann_row_bind:
  "circann_row c xmin xmax iy so = Option.bind so (\<lambda>s. circann_row c xmin xmax iy (Some s))"
  by (cases so) (simp_all add: circann_row_def)

lemma circann_scan_meter:
  assumes rm: "0 < rmax" "1 \<le> n" "1 \<le> subpix"
    and rng: "(rmax + 5 / 2) * of_int n \<le> rmax * 2 ^ 31"
    and c: "c = scan_ctx pixval ea mk es mt w h x y rmax n subpix"
    and box: "0 \<le> xmin" "0 \<le> ymin" "ymax \<le> h" "0 \<le> w" "h * w + xmin < 2 ^ 31"
    and inv: "bins_ok n st" "mk = None \<longrightarrow> \<not> s_ismasked st" "ea = None \<longrightarrow> s_varpix st = v0"
    and j: "j < nat n"
  shows "\<exists>st'. circann_scan c xmin xmax ymin ymax st = Some st' \<and> bins_ok n st' \<and>
           meter_val q st' j = meter_val q st j +
             (\<Sum>p\<leftarrow>box_pixels xmin xmax ymin ymax.
                pixel_weight x y rmax n subpix p j *
                meter_factor q (pixel_masked c (pixel_index w h p))
                  (pixval (pixel_index w h p))
                  (pixel_varpix c v0 (pixel_index w h p)))"
proof -
  define P where "P s \<longleftrightarrow> bins_ok n s \<and> (mk = None \<longrightarrow> \<not> s_ismasked s) \<and>
      (ea = None \<longrightarrow> s_varpix s = v0)" for s
  define G where "G = (\<lambda>p. pixel_weight x y rmax n subpix p j *
                meter_factor q (pixel_masked c (pixel_index w h p))
                  (pixval (pixel_index w h p))
                  (pixel_varpix c v0 (pixel_index w h p)))"
  have cw: "cx_w c = w" "cx_h c = h" using scan_ctx_fields [OF c] by simp_all
  have pix: "\<exists>s'. circann_pixel c iy (pixel_index w h (ix, iy)) ix s = Some s' \<and> P s' \<and>
      meter_val q s' j = meter_val q s j + G (ix, iy)" if "P s" for ix iy s
    using circann_pixel_meter [OF rm rng c _ _ _ j, of s v0 iy "pixel_index w h (ix, iy)" ix q]
      that
    unfolding P_def G_def by simp
  have row: "\<exists>s'. circann_row c xmin xmax iy (Some s) = Some s' \<and> P s' \<and>
      meter_val q s' j = meter_val q s j + (\<Sum>ix\<leftarrow>[xmin..xmax - 1]. G (ix, iy))"
    if "iy \<in> set [ymin..ymax - 1]" "P s" for iy s
  proof -
    have i: "0 \<le> iy" "iy < h" using that(1) box(2,3) by simp_all
    then have m: "iy mod h = iy" by simp
    have "row_pos w h xmin iy = Some ((iy mod h) * w + xmin)"
      unfolding m using box(4,1,5) i by (rule row_pos_in_window(1))
    then have r: "circann_row c xmin xmax iy (Some s) =
        fold (\<lambda>ix so. Option.bind so (circann_pixel c iy (pixel_index w h (ix, iy)) ix))
          [xmin..xmax - 1] (Some s)"
      using circann_row_windowed [of c xmin iy xmax s] by (simp add: cw for_loop_fold)
    show ?thesis
      unfolding r
      by (rule fold_bind_meter [where P = P and g = "\<lambda>ix. G (ix, iy)"
            and f = "\<lambda>ix. circann_pixel c iy (pixel_index w h (ix, iy)) ix"
            and m = "\<lambda>s. meter_val q s j"]) (use pix that(2) in blast)+
  qed
  have scan: "circann_scan c xmin xmax ymin ymax st =
      fold (\<lambda>iy so. Option.bind so (\<lambda>s. circann_row c xmin xmax iy (Some s)))
        [ymin..ymax - 1] (Some st)"
    unfolding circann_scan_def for_loop_fold
    by (rule arg_cong [where f = "\<lambda>F. fold F [ymin..ymax - 1] (Some st)"])
       (intro ext, rule circann_row_bind)
  have "P st" using inv by (simp add: P_def)
  then have "\<exists>s'. circann_scan c xmin xmax ymin ymax st = Some s' \<and> P s' \<and>
      meter_val q s' j = meter_val q st j +
        (\<Sum>iy\<leftarrow>[ymin..ymax - 1]. \<Sum>ix\<leftarrow>[xmin..xmax - 1]. G (ix, iy))"
    unfolding scan
    by (intro fold_bind_meter [where P = P and m = "\<lambda>s. meter_val q s j"
          and f = "\<lambda>iy s. circann_row c xmin xmax iy (Some s)"
          and g = "\<lambda>iy. \<Sum>ix\<leftarrow>[xmin..xmax - 1]. G (ix, iy)"]) (use row in blast)+
  then show ?thesis
    unfolding sum_list_box_pixels [symmetric] by (auto simp: P_def G_def)
qed

text \<open>
  For \<open>rmax > 0\<close>, \<open>n \<ge> 1\<close> and \<open>subpix \<ge> 1\<close>, with \<open>(rmax + 5 / 2) * n \<le> rmax * 2\<^sup>3\<^sup>1\<close> so
  that the bin indices are values of \<^verbatim>\<open>int\<close>, and on a box whose rows lie in a window of
  fewer than \<open>2\<^sup>3\<^sup>1\<close> elements, the scan is defined, and it adds to each accumulator of each
  bin \<open>j < n\<close> the sum over the pixels \<open>p\<close> of the box of \<open>pixel_weight p j\<close> times the
  factor of the accumulator: 1 for the area, 1 for the masked area when \<open>p\<close> is masked,
  the pixel value for the sum and the pixel variance for the variance when \<open>p\<close> is not
  masked. The weight is the one of the specification: a pixel with
  \<open>rpix\<^sup>2 < (rmax + 1.5)\<^sup>2\<close> counts whole in bin \<open>floor (rpix / (rmax / n))\<close> when
  \<open>fmod rpix (rmax / n)\<close> lies in \<open>[0.7072, rmax / n - 0.7072]\<close>, and otherwise through its
  \<open>subpix \<times> subpix\<close> sub-cell centres with weight \<open>1 / subpix\<^sup>2\<close> each; whether it is masked
  is decided once for the pixel.
\<close>

lemma circann_scan_contributions:
  assumes "0 < rmax" "1 \<le> n" "1 \<le> subpix"
    and "(rmax + 5 / 2) * of_int n \<le> rmax * 2 ^ 31"
    and "c = scan_ctx pixval ea mk es mt w h x y rmax n subpix"
    and "0 \<le> xmin" "0 \<le> ymin" "ymax \<le> h" "0 \<le> w" "h * w + xmin < 2 ^ 31"
    and "bins_ok n st" "mk = None \<longrightarrow> \<not> s_ismasked st"
    and "j < nat n"
  shows "\<exists>st'. circann_scan c xmin xmax ymin ymax st = Some st' \<and>
           (\<forall>q. meter_val q st' j = meter_val q st j +
             (\<Sum>p\<leftarrow>box_pixels xmin xmax ymin ymax.
                pixel_weight x y rmax n subpix p j *
                meter_factor q (pixel_masked c (pixel_index w h p))
                  (pixval (pixel_index w h p))
                  (pixel_varpix c (s_varpix st) (pixel_index w h p))))"
proof -
  have v: "ea = None \<longrightarrow> s_varpix st = s_varpix st" by simp
  note m = circann_scan_meter [OF assms(1-12) v assms(13)]
  from m [where q = Area and xmax = xmax] obtain st' where s: "circann_scan c xmin xmax ymin ymax st = Some st'"
    by blast
  have "meter_val q st' j = meter_val q st j +
             (\<Sum>p\<leftarrow>box_pixels xmin xmax ymin ymax.
                pixel_weight x y rmax n subpix p j *
                meter_factor q (pixel_masked c (pixel_index w h p))
                  (pixval (pixel_index w h p))
                  (pixel_varpix c (s_varpix st) (pixel_index w h p)))" for q
    using m [where q = q and xmax = xmax] s by auto
  with s show ?thesis by blast
qed

text \<open>
  The scan of \<^verbatim>\<open>sep_sum_circann_multi\<close> runs in the context \<open>scan_ctx\<close>, on the box of radius
  \<open>rmax + 1.5\<close>, from the cleared arrays; the correction for masked values and the Poisson
  term follow it.
\<close>

lemma sep_sum_circann_multi_scan:
  assumes "\<not> (rmax < 0 \<or> n < 1)" "\<not> subpix < 1"
    and "converters_status gc (error \<noteq> None) (mask_buf \<noteq> None) dtype edtype mdtype = RETURN_OK"
    and "boxextent x y (rmax + 1.5) (rmax + 1.5) w h 0 = Some (xmin, xmax, ymin, ymax, fl)"
    and "es = (inflag AND SEP_ERROR_IS_VAR = 0)"
    and "ea = (case error of None \<Rightarrow> None
               | Some e \<Rightarrow> if inflag AND SEP_ERROR_IS_ARRAY \<noteq> 0 then Some (snd (gc edtype) \<circ> e)
                          else None)"
    and "v0 = (case error of None \<Rightarrow> 0
               | Some e \<Rightarrow> if inflag AND SEP_ERROR_IS_ARRAY \<noteq> 0 then 0
                          else (let v = snd (gc edtype) (e 0) in if es then v * v else v))"
  shows "sep_sum_circann_multi gc data error mask_buf dtype edtype mdtype w h maskthresh gain inflag
           x y rmax n subpix sum_buf sumvar area maskarea flag =
         (case circann_scan
                 (scan_ctx (snd (gc dtype) \<circ> data) ea
                    (map_option (\<lambda>m. snd (gc mdtype) \<circ> m) mask_buf) es maskthresh w h x y rmax n
                    subpix)
                 xmin xmax ymin ymax
                 \<lparr>s_sum = memset0 sum_buf n, s_sumvar = memset0 sumvar n, s_area = memset0 area n,
                  s_maskarea = (if mask_buf \<noteq> None then memset0 maskarea n else maskarea),
                  s_flag = fl, s_varpix = v0, s_ismasked = False\<rparr> of
            None \<Rightarrow> None
          | Some st \<Rightarrow>
              (let (sum_buf', sumvar', area') =
                     correct_for_masked (mask_buf \<noteq> None) inflag (nat n)
                       (s_sum st) (s_sumvar st) (s_area st) (s_maskarea st)
               in Some (RETURN_OK,
                        \<lparr>o_sum = sum_buf',
                         o_sumvar = (if gain > 0 then poisson_loop (nat n) sum_buf' sumvar' gain
                                     else sumvar'),
                         o_area = area', o_maskarea = s_maskarea st, o_flag = s_flag st\<rparr>)))"
proof -
  have c: "fst (gc dtype) = RETURN_OK" "error \<noteq> None \<longrightarrow> fst (gc edtype) = RETURN_OK"
    "mask_buf \<noteq> None \<longrightarrow> fst (gc mdtype) = RETURN_OK"
    using assms(3) by (auto simp: converters_status_def split: if_splits)
  show ?thesis
  proof (cases error)
    case None
    then show ?thesis
      using assms(1,2,4) c
      by (cases mask_buf)
         (simp_all add: sep_sum_circann_multi_def Let_def split_beta scan_ctx_def assms(5,6,7)
            split: option.splits)
  next
    case (Some e)
    then show ?thesis
      using assms(1,2,4) c
      by (cases mask_buf)
         (simp_all add: sep_sum_circann_multi_def Let_def split_beta scan_ctx_def assms(5,6,7)
            split: option.splits)
  qed
qed


text \<open>
  Within these ranges a call of \<^verbatim>\<open>sep_sum_circann_multi\<close> that passes the checks and
  resolves its converters is defined and returns \<^verbatim>\<open>RETURN_OK\<close>.
\<close>

lemma sep_sum_circann_multi_in_range:
  assumes rm: "0 < rmax" "1 \<le> n" "1 \<le> subpix"
    and rng: "(rmax + 5 / 2) * of_int n \<le> rmax * 2 ^ 31"
    and conv: "converters_status gc (error \<noteq> None) (mask_buf \<noteq> None) dtype edtype mdtype
                 = RETURN_OK"
    and box: "boxextent x y (rmax + 1.5) (rmax + 1.5) w h 0 = Some (xmin, xmax, ymin, ymax, fl)"
    and win: "0 \<le> w" "h * w + xmin < 2 ^ 31"
    and len: "nat n \<le> length sum_buf" "nat n \<le> length sumvar" "nat n \<le> length area"
      "nat n \<le> length maskarea"
  shows "\<exists>out. sep_sum_circann_multi gc data error mask_buf dtype edtype mdtype w h maskthresh
                 gain inflag x y rmax n subpix sum_buf sumvar area maskarea flag
               = Some (RETURN_OK, out)"
proof -
  define es where "es = (inflag AND SEP_ERROR_IS_VAR = 0)"
  define ea where "ea = (case error of None \<Rightarrow> None
               | Some e \<Rightarrow> if inflag AND SEP_ERROR_IS_ARRAY \<noteq> 0 then Some (snd (gc edtype) \<circ> e)
                          else None)"
  define v0 where "v0 = (case error of None \<Rightarrow> 0
               | Some e \<Rightarrow> if inflag AND SEP_ERROR_IS_ARRAY \<noteq> 0 then 0
                          else (let v = snd (gc edtype) (e 0) in if es then v * v else v))"
  define st0 where "st0 = \<lparr>s_sum = memset0 sum_buf n, s_sumvar = memset0 sumvar n,
      s_area = memset0 area n,
      s_maskarea = (if mask_buf \<noteq> None then memset0 maskarea n else maskarea),
      s_flag = fl, s_varpix = v0, s_ismasked = False\<rparr>"
  define c where "c = scan_ctx (snd (gc dtype) \<circ> data) ea
      (map_option (\<lambda>m. snd (gc mdtype) \<circ> m) mask_buf) es maskthresh w h x y rmax n subpix"
  have b: "0 \<le> xmin" "0 \<le> ymin" "ymax \<le> h" using boxextent_bounds [OF box] by simp_all
  have ok: "bins_ok n st0" using len by (simp add: bins_ok_def st0_def memset0_length)
  have nm: "map_option (\<lambda>m. snd (gc mdtype) \<circ> m) mask_buf = None \<longrightarrow> \<not> s_ismasked st0"
    by (simp add: st0_def)
  have j: "(0::nat) < nat n" using rm(2) by simp
  from circann_scan_contributions [OF rm rng c_def b win ok nm j, where xmax = xmax]
  obtain st' where s: "circann_scan c xmin xmax ymin ymax st0 = Some st'" by blast
  have p: "\<not> (rmax < 0 \<or> n < 1)" "\<not> subpix < 1" using rm by simp_all
  show ?thesis
    unfolding sep_sum_circann_multi_scan [OF p conv box es_def ea_def v0_def]
    using s unfolding c_def st0_def by (simp add: split_beta)
qed

text \<open>
  An image of one pixel of value 3 and variance 2, with the centre on the pixel,
  \<open>rmax = 1\<close> and one bin: the pixel is at distance 0, within the margin of the lower
  edge of the bin, its single sub-cell falls into bin 0, and the call returns the area
  1, the sum 3 and the variance 2, with the truncation flag.
\<close>

lemma sep_sum_circann_multi_example:
  "sep_sum_circann_multi (\<lambda>t. (RETURN_OK, id)) (\<lambda>i. 3 :: real) (Some (\<lambda>i. 2)) None 0 0 0 1 1 0 0
     SEP_ERROR_IS_VAR 0 0 1 1 1 [7] [7] [7] [7] 0 =
   Some (RETURN_OK, \<lparr>o_sum = [3], o_sumvar = [2], o_area = [1], o_maskarea = [7],
                     o_flag = SEP_APER_TRUNC\<rparr>)"
proof -
  let ?c = "scan_ctx (\<lambda>i. 3) None None False 0 1 1 0 0 1 1 1"
  let ?st = "\<lparr>s_sum = [0], s_sumvar = [0], s_area = [0], s_maskarea = [7],
      s_flag = SEP_APER_TRUNC, s_varpix = 2, s_ismasked = False\<rparr>"
  have b: "boxextent 0 0 (1 + 1.5) (1 + 1.5) 1 1 0 = Some (0, 1, 0, 1, SEP_APER_TRUNC)"
    by (simp add: boxextent_def c_int_def c_trunc_def in_int_def Let_def)
  have r: "row_pos 1 1 0 0 = Some 0"
    by (simp add: row_pos_def c_rem_def int_mul_def int_add_def in_int_def)
  have w: "cx_w ?c = 1" "cx_h ?c = 1" by (simp_all add: scan_ctx_def)
  have p: "circann_pixel ?c 0 0 0 ?st =
      Some \<lparr>s_sum = [3], s_sumvar = [2], s_area = [1], s_maskarea = [7],
            s_flag = SEP_APER_TRUNC, s_varpix = 2, s_ismasked = False\<rparr>"
    by (simp add: circann_pixel_def scan_ctx_def Let_def fmod_def c_int_def c_trunc_def in_int_def
        accumulate_def add_at_def)
  have s: "circann_scan ?c 0 1 0 1 ?st =
      Some \<lparr>s_sum = [3], s_sumvar = [2], s_area = [1], s_maskarea = [7],
            s_flag = SEP_APER_TRUNC, s_varpix = 2, s_ismasked = False\<rparr>"
    by (simp add: circann_scan_def circann_row_def for_loop.simps r w p)
  have m: "memset0 [7] 1 = [0]" by (simp add: memset0_def)
  have f: "SEP_ERROR_IS_VAR AND SEP_ERROR_IS_ARRAY = 0" "SEP_ERROR_IS_VAR \<noteq> 0"
    by (simp_all add: SEP_ERROR_IS_VAR_def SEP_ERROR_IS_ARRAY_def)
  have cs: "converters_status (\<lambda>t::int. (RETURN_OK, id :: real \<Rightarrow> real))
      (Some (\<lambda>i::int. 2 :: real) \<noteq> None) ((None :: (int \<Rightarrow> real) option) \<noteq> None) 0 0 0
      = RETURN_OK"
    by (simp add: converters_status_def)
  have p0: "\<not> ((1::real) < 0 \<or> (1::int) < 1)" "\<not> (1::int) < 1" by simp_all
  show ?thesis
    unfolding sep_sum_circann_multi_scan [OF p0 cs b refl refl refl]
    using s by (simp add: f m comp_def correct_for_masked_def)
qed

text \<open>
  C1. The claim gives the contribution of every pixel for every call with \<open>rmax \<ge> 0\<close>,
  \<open>n \<ge> 1\<close> and \<open>subpix \<ge> 1\<close>: a pixel or a sub-cell whose bin index is not below \<open>n\<close>
  contributes nothing. The code computes the bin index with \<^verbatim>\<open>(int)(rpix*stepdens)\<close>
  before it compares it with \<open>n\<close>. With \<open>rmax = 0\<close>, which the check \<^verbatim>\<open>rmax < 0.0\<close> accepts,
  the bin width is 0 and \<^verbatim>\<open>stepdens\<close> is \<^verbatim>\<open>1.0/0\<close>: the conversion is applied to an infinity or
  a NaN and is undefined, for the first pixel within the radius \<open>1.5\<close>. On an image of one
  pixel with the centre at \<open>x = 1\<close>, \<open>y = 0\<close>, at distance 1 of the pixel, the call passes
  the checks, the box is the pixel, and the scan is undefined. The same happens with a
  small positive \<open>rmax\<close>, when a bin index is not a value of \<^verbatim>\<open>int\<close>: with
  \<open>rmax = 1 / 17179869184\<close>, that is \<open>2\<^sup>-\<^sup>3\<^sup>4\<close>, the index of the pixel is \<open>2\<^sup>3\<^sup>4\<close>. Within the
  ranges of the lemmas above the contributions are the claimed ones.
\<close>

theorem sep_sum_circann_multi_zero_rmax:
  "(0::real) \<le> 0 \<and> (1::int) \<le> 1 \<and>
   boxextent 1 0 (0 + 1.5) (0 + 1.5) 1 1 0 = Some (0, 1, 0, 1, SEP_APER_TRUNC) \<and>
   circann_scan (scan_ctx (\<lambda>i. 3) None None True 0 1 1 1 0 0 1 1) 0 1 0 1
     \<lparr>s_sum = [0], s_sumvar = [0], s_area = [0], s_maskarea = [0], s_flag = SEP_APER_TRUNC,
      s_varpix = 0, s_ismasked = False\<rparr> = None \<and>
   sep_sum_circann_multi (\<lambda>t. (RETURN_OK, id)) (\<lambda>i. 3 :: real) None None 0 0 0 1 1 0 0 0
     1 0 0 1 1 [0] [0] [0] [0] 0 = None \<and>
   c_int (1 * (1 / (1 / 17179869184 / 1))) = None \<and>
   sep_sum_circann_multi (\<lambda>t. (RETURN_OK, id)) (\<lambda>i. 3 :: real) None None 0 0 0 1 1 0 0 0
     1 0 (1 / 17179869184) 1 1 [0] [0] [0] [0] 0 = None"
proof -
  let ?c0 = "scan_ctx (\<lambda>i. 3) None None True 0 1 1 1 0 0 1 1"
  let ?c1 = "scan_ctx (\<lambda>i. 3) None None True 0 1 1 1 0 (1 / 17179869184) 1 1"
  have r: "row_pos 1 1 0 0 = Some 0"
    by (simp add: row_pos_def c_rem_def int_mul_def int_add_def in_int_def)
  have b0: "boxextent 1 0 (0 + 1.5) (0 + 1.5) 1 1 0 = Some (0, 1, 0, 1, SEP_APER_TRUNC)"
    by (simp add: boxextent_def c_int_def c_trunc_def in_int_def Let_def)
  have p0: "circann_pixel ?c0 0 idx 0 st = None" for idx st
    by (simp add: circann_pixel_def scan_ctx_def Let_def)
  have w0: "cx_w ?c0 = 1" "cx_h ?c0 = 1" by (simp_all add: scan_ctx_def)
  have s0: "circann_scan ?c0 0 1 0 1 st = None" for st
    by (simp add: circann_scan_def circann_row_def for_loop.simps p0 r w0)
  have m0: "sep_sum_circann_multi (\<lambda>t. (RETURN_OK, id)) (\<lambda>i. 3 :: real) None None 0 0 0 1 1 0 0 0
     1 0 0 1 1 [0] [0] [0] [0] 0 = None"
    using b0 s0
    by (simp add: sep_sum_circann_multi_def Let_def SEP_ERROR_IS_VAR_def scan_ctx_def comp_def)
  have j: "c_int (1 * (1 / (1 / 17179869184 / 1))) = None"
    by (simp add: c_int_def c_trunc_def in_int_def)
  have b1: "boxextent 1 0 (1 / 17179869184 + 1.5) (1 / 17179869184 + 1.5) 1 1 0
      = Some (0, 1, 0, 1, SEP_APER_TRUNC)"
    by (simp add: boxextent_def c_int_def c_trunc_def in_int_def Let_def)
  have p1: "circann_pixel ?c1 0 idx 0 st = None" for idx st
    by (simp add: circann_pixel_def scan_ctx_def Let_def fmod_def c_int_def c_trunc_def in_int_def)
  have w1: "cx_w ?c1 = 1" "cx_h ?c1 = 1" by (simp_all add: scan_ctx_def)
  have s1: "circann_scan ?c1 0 1 0 1 st = None" for st
    by (simp add: circann_scan_def circann_row_def for_loop.simps p1 r w1)
  have m1: "sep_sum_circann_multi (\<lambda>t. (RETURN_OK, id)) (\<lambda>i. 3 :: real) None None 0 0 0 1 1 0 0 0
     1 0 (1 / 17179869184) 1 1 [0] [0] [0] [0] 0 = None"
    using b1 s1
    by (simp add: sep_sum_circann_multi_def Let_def SEP_ERROR_IS_VAR_def scan_ctx_def comp_def)
  show ?thesis using b0 s0 m0 j m1 by simp
qed

subsection \<open>Kron radius\<close>

lemma kron_pixel_cases:
  "kron_pixel pixval maskval maskthresh x y cxx cyy cxy (r * r) (snd p) (pixel_index w h p)
       (fst p) st =
     (if kron_counted pixval maskval maskthresh x y cxx cyy cxy r w h p
      then st\<lparr>k_r1 := (if kron_rpix2 x y cxx cyy cxy p < 0 then None
                       else map_option (\<lambda>r1. r1 + sqrt (kron_rpix2 x y cxx cyy cxy p)
                                                  * pixval (pixel_index w h p)) (k_r1 st)),
              k_v1 := k_v1 st + pixval (pixel_index w h p),
              k_area := k_area st + 1\<rparr>
      else if kron_rpix2 x y cxx cyy cxy p \<le> r * r
           then st\<lparr>k_flag := k_flag st OR SEP_APER_HASMASKED\<rparr> else st)"
  by (auto simp: kron_pixel_def kron_counted_def kron_rpix2_def Let_def)

lemma kron_fold:
  fixes pixval maskval maskthresh x y cxx cyy cxy r w h
  defines "F \<equiv> \<lambda>p. kron_pixel pixval maskval maskthresh x y cxx cyy cxy (r * r) (snd p)
                      (pixel_index w h p) (fst p)"
    and "C \<equiv> kron_counted pixval maskval maskthresh x y cxx cyy cxy r w h"
  shows "k_area (fold F ps st) = k_area st + real (length (filter C ps)) \<and>
         k_v1 (fold F ps st) = k_v1 st + (\<Sum>p\<leftarrow>filter C ps. pixval (pixel_index w h p)) \<and>
         k_r1 (fold F ps st) =
           (if \<exists>p\<in>set (filter C ps). kron_rpix2 x y cxx cyy cxy p < 0 then None
            else map_option
                   (\<lambda>r1. r1 + (\<Sum>p\<leftarrow>filter C ps. sqrt (kron_rpix2 x y cxx cyy cxy p)
                                                   * pixval (pixel_index w h p)))
                   (k_r1 st))"
proof (induction ps arbitrary: st)
  case Nil
  show ?case by (simp add: option.map_ident)
next
  case (Cons p ps)
  have step: "F p st =
     (if C p
      then st\<lparr>k_r1 := (if kron_rpix2 x y cxx cyy cxy p < 0 then None
                       else map_option (\<lambda>r1. r1 + sqrt (kron_rpix2 x y cxx cyy cxy p)
                                                  * pixval (pixel_index w h p)) (k_r1 st)),
              k_v1 := k_v1 st + pixval (pixel_index w h p),
              k_area := k_area st + 1\<rparr>
      else if kron_rpix2 x y cxx cyy cxy p \<le> r * r
           then st\<lparr>k_flag := k_flag st OR SEP_APER_HASMASKED\<rparr> else st)"
    unfolding F_def C_def by (rule kron_pixel_cases)
  show ?case
  proof (cases "C p")
    case True
    then show ?thesis
      using Cons.IH [of "F p st"] step
      by (cases "k_r1 st") (auto simp: algebra_simps)
  next
    case False
    then show ?thesis
      using Cons.IH [of "F p st"] step by auto
  qed
qed

lemma flag_or_and: "(a OR b) AND b = (b :: 16 word)"
  by (simp add: bit_eq_iff bit_and_iff bit_or_iff)

text \<open>
  On a box whose rows lie in the window, of fewer than \<open>2\<^sup>3\<^sup>1\<close> elements, the scan of
  \<^verbatim>\<open>sep_kron_radius\<close> is defined and visits the pixels of the box in order, each read at
  its element of the window.
\<close>

lemma kron_scan:
  assumes b: "0 \<le> xmin" "0 \<le> ymin" "ymax \<le> h"
    and rng: "0 \<le> w" "h * w + xmin < 2 ^ 31"
  shows "for_loop ymin ymax
           (kron_row pixval maskval w h maskthresh x y cxx cyy cxy (r * r) xmin xmax) (Some st)
         = Some (fold (\<lambda>p. kron_pixel pixval maskval maskthresh x y cxx cyy cxy (r * r) (snd p)
                             (pixel_index w h p) (fst p))
                   (box_pixels xmin xmax ymin ymax) st)"
proof -
  define K where "K = (\<lambda>ix iy. kron_pixel pixval maskval maskthresh x y cxx cyy cxy (r * r) iy
                                  (pixel_index w h (ix, iy)) ix)"
  have row: "kron_row pixval maskval w h maskthresh x y cxx cyy cxy (r * r) xmin xmax iy (Some s) =
      Some (fold (\<lambda>ix. K ix iy) [xmin..xmax - 1] s)" if "iy \<in> set [ymin..ymax - 1]" for iy s
  proof -
    have i: "0 \<le> iy" "iy < h" using that b by simp_all
    then have m: "iy mod h = iy" by simp
    have "row_pos w h xmin iy = Some ((iy mod h) * w + xmin)"
      unfolding m using rng(1) b(1) rng(2) i by (rule row_pos_in_window(1))
    then show ?thesis
      unfolding K_def for_loop_fold [symmetric] by (rule kron_row_windowed)
  qed
  have "for_loop ymin ymax
           (kron_row pixval maskval w h maskthresh x y cxx cyy cxy (r * r) xmin xmax) (Some st)
      = fold (kron_row pixval maskval w h maskthresh x y cxx cyy cxy (r * r) xmin xmax)
          [ymin..ymax - 1] (Some st)"
    by (rule for_loop_fold)
  also have "\<dots> = Some (fold (\<lambda>iy. fold (\<lambda>ix. K ix iy) [xmin..xmax - 1]) [ymin..ymax - 1] st)"
    using row by (rule fold_option_Some)
  also have "\<dots> = Some (fold (\<lambda>p. K (fst p) (snd p)) (box_pixels xmin xmax ymin ymax) st)"
    by (simp only: fold_box_pixels)
  finally show ?thesis by (simp add: K_def)
qed

text \<open>
  C7. Let the conversions of the box of \<^verbatim>\<open>sep_kron_radius\<close> be defined, that is, let the
  four bounds lie in the range of \<^verbatim>\<open>int\<close>, and let the window have \<open>w \<ge> 0\<close> columns and
  fewer than \<open>2\<^sup>3\<^sup>1\<close> elements, so that the row offsets are values of \<^verbatim>\<open>int\<close>. When the
  converters resolve, \<^verbatim>\<open>sep_kron_radius\<close> returns \<^verbatim>\<open>RETURN_OK\<close>. Let \<open>V\<close> be the pixels of the
  box that lie in the ellipse, are not below the bad-pixel floor and are not masked; the
  accumulated area is their number, \<open>V1\<close> the sum of their values and \<open>R1\<close> the sum of
  their radius times value (a NaN, \<open>None\<close>, when the quadratic form is negative at one of
  them). (1) If \<open>V\<close> is empty the all-masked flag is set and the radius is 0. (2) If \<open>V\<close>
  is not empty and \<open>R1 \<le> 0\<close> or \<open>V1 \<le> 0\<close> the non-positive flag is set and the radius is
  0. (3) Otherwise the radius is \<open>R1 / V1\<close>.
\<close>

theorem sep_kron_radius_outcomes:
  assumes conv: "fst (gc dtype) = RETURN_OK" "mask_buf \<noteq> None \<longrightarrow> fst (gc mdtype) = RETURN_OK"
    and box: "boxextent_ellipse x y cxx cyy cxy r w h 0 = Some (xmin, xmax, ymin, ymax, fl)"
    and rng: "0 \<le> w" "h * w + xmin < 2 ^ 31"
    and pv: "pixval = snd (gc dtype) \<circ> data"
    and mv: "maskval = map_option (\<lambda>m. snd (gc mdtype) \<circ> m) mask_buf"
    and V: "V = filter (kron_counted pixval maskval maskthresh x y cxx cyy cxy r w h)
                  (box_pixels xmin xmax ymin ymax)"
    and R1: "R1 = (if \<exists>p\<in>set V. kron_rpix2 x y cxx cyy cxy p < 0 then None
                   else Some (\<Sum>p\<leftarrow>V. sqrt (kron_rpix2 x y cxx cyy cxy p)
                                        * pixval (pixel_index w h p)))"
    and V1: "V1 = (\<Sum>p\<leftarrow>V. pixval (pixel_index w h p))"
  shows "\<exists>kronrad' flag'.
           sep_kron_radius gc data mask_buf dtype mdtype w h maskthresh x y cxx cyy cxy r kronrad
             = Some (RETURN_OK, kronrad', flag') \<and>
           (V = [] \<longrightarrow> kronrad' = Some 0 \<and> flag' AND SEP_APER_ALLMASKED \<noteq> 0) \<and>
           (V \<noteq> [] \<and> ((\<exists>r1. R1 = Some r1 \<and> r1 \<le> 0) \<or> V1 \<le> 0) \<longrightarrow>
              kronrad' = Some 0 \<and> flag' AND SEP_APER_NONPOSITIVE \<noteq> 0) \<and>
           (V \<noteq> [] \<and> \<not> ((\<exists>r1. R1 = Some r1 \<and> r1 \<le> 0) \<or> V1 \<le> 0) \<longrightarrow>
              kronrad' = map_option (\<lambda>r1. r1 / V1) R1)"
proof -
  define st where "st = fold (\<lambda>p. kron_pixel pixval maskval maskthresh x y cxx cyy cxy (r * r)
                                     (snd p) (pixel_index w h p) (fst p))
      (box_pixels xmin xmax ymin ymax) \<lparr>k_r1 = Some 0, k_v1 = 0, k_area = 0, k_flag = fl\<rparr>"
  have b: "0 \<le> xmin" "0 \<le> ymin" "ymax \<le> h" using boxextent_ellipse_bounds [OF box] by simp_all
  have scan: "for_loop ymin ymax
      (kron_row pixval maskval w h maskthresh x y cxx cyy cxy (r * r) xmin xmax)
      (Some \<lparr>k_r1 = Some 0, k_v1 = 0, k_area = 0, k_flag = fl\<rparr>) = Some st"
    unfolding st_def using b rng by (rule kron_scan)
  have e: "sep_kron_radius gc data mask_buf dtype mdtype w h maskthresh x y cxx cyy cxy r kronrad =
      Some (if k_area st = 0 then (RETURN_OK, Some 0, k_flag st OR SEP_APER_ALLMASKED)
            else if (case k_r1 st of None \<Rightarrow> False | Some r1 \<Rightarrow> r1 \<le> 0) \<or> k_v1 st \<le> 0
                 then (RETURN_OK, Some 0, k_flag st OR SEP_APER_NONPOSITIVE)
                 else (RETURN_OK, map_option (\<lambda>r1. r1 / k_v1 st) (k_r1 st), k_flag st))"
    using conv box scan [unfolded pv mv]
    by (cases "mask_buf = None")
       (simp_all add: sep_kron_radius_def Let_def split_beta pv mv)
  note f = kron_fold [of pixval maskval maskthresh x y cxx cyy cxy r w h
      "box_pixels xmin xmax ymin ymax" "\<lparr>k_r1 = Some 0, k_v1 = 0, k_area = 0, k_flag = fl\<rparr>"]
  note f1 = f [THEN conjunct1] and f2 = f [THEN conjunct2, THEN conjunct1]
    and f3 = f [THEN conjunct2, THEN conjunct2]
  have a: "k_area st = real (length V)" unfolding st_def V f1 by simp
  have v: "k_v1 st = V1" unfolding st_def V V1 f2 by simp
  have r: "k_r1 st = R1" unfolding st_def V R1 f3 by auto
  have a0: "k_area st = 0 \<longleftrightarrow> V = []" unfolding a by simp
  have nz: "SEP_APER_ALLMASKED \<noteq> 0" "SEP_APER_NONPOSITIVE \<noteq> 0"
    by (simp_all add: SEP_APER_ALLMASKED_def SEP_APER_NONPOSITIVE_def)
  have rr: "(case R1 of None \<Rightarrow> False | Some r1 \<Rightarrow> r1 \<le> 0) \<longleftrightarrow> (\<exists>r1. R1 = Some r1 \<and> r1 \<le> 0)"
    by (cases R1) simp_all
  show ?thesis
    unfolding e a0 v r rr
    by (auto simp: flag_or_and nz)
qed


theorem sep_kron_radius_outcomes_witness:
  "fst (the (sep_kron_radius (\<lambda>t. (RETURN_OK, id)) (\<lambda>i. 2 :: real) (Some (\<lambda>i. 1)) 0 0 1 1 0
          0 0 1 1 0 1 None)) = RETURN_OK \<and>
   fst (snd (the (sep_kron_radius (\<lambda>t. (RETURN_OK, id)) (\<lambda>i. 2 :: real) (Some (\<lambda>i. 1)) 0 0 1 1 0
          0 0 1 1 0 1 None))) = Some 0 \<and>
   snd (snd (the (sep_kron_radius (\<lambda>t. (RETURN_OK, id)) (\<lambda>i. 2 :: real) (Some (\<lambda>i. 1)) 0 0 1 1 0
          0 0 1 1 0 1 None))) AND SEP_APER_ALLMASKED \<noteq> 0 \<and>
   fst (snd (the (sep_kron_radius (\<lambda>t. (RETURN_OK, id)) (\<lambda>i. 2 :: real) None 0 0 1 1 0
          0 0 1 1 0 1 None))) = Some 0 \<and>
   snd (snd (the (sep_kron_radius (\<lambda>t. (RETURN_OK, id)) (\<lambda>i. 2 :: real) None 0 0 1 1 0
          0 0 1 1 0 1 None))) AND SEP_APER_NONPOSITIVE \<noteq> 0 \<and>
   sep_kron_radius (\<lambda>t. (RETURN_OK, id)) (\<lambda>i. real_of_int i + 1) None 0 0 2 2 0
          0 0 1 1 0 1 None \<noteq> None \<and>
   fst (snd (the (sep_kron_radius (\<lambda>t. (RETURN_OK, id)) (\<lambda>i. real_of_int i + 1) None 0 0 2 2 0
          0 0 1 1 0 1 None))) = Some (5 / 6)"
proof -
  let ?gc = "\<lambda>t::int. (RETURN_OK, id :: real \<Rightarrow> real)"
  let ?A = "sep_kron_radius ?gc (\<lambda>i. 2 :: real) (Some (\<lambda>i. 1)) 0 0 1 1 0 0 0 1 1 0 1 None"
  let ?B = "sep_kron_radius ?gc (\<lambda>i. 2 :: real) None 0 0 1 1 0 0 0 1 1 0 1 None"
  let ?C = "sep_kron_radius ?gc (\<lambda>i. real_of_int i + 1) None 0 0 2 2 0 0 0 1 1 0 1 None"
  have c: "fst (?gc 0) = RETURN_OK" by simp
  have b1: "boxextent_ellipse 0 0 1 1 0 1 1 1 0 = Some (0, 1, 0, 1, SEP_APER_TRUNC)"
    by (simp add: boxextent_ellipse_def boxextent_def c_int_def c_trunc_def in_int_def Let_def)
  have b2: "boxextent_ellipse 0 0 1 1 0 1 2 2 0 = Some (0, 2, 0, 2, 0)"
    by (simp add: boxextent_ellipse_def boxextent_def c_int_def c_trunc_def in_int_def Let_def)
  have r1: "(0::int) \<le> 1" "(1::int) * 1 + 0 < 2 ^ 31" by simp_all
  have r2: "(0::int) \<le> 2" "(2::int) * 2 + 0 < 2 ^ 31" by simp_all
  have bp1: "box_pixels 0 1 0 1 = [(0, 0)]" by (simp add: box_pixels_def)
  have bp2: "box_pixels 0 2 0 2 = [(0, 0), (1, 0), (0, 1), (1, 1)]"
    by (simp add: box_pixels_def upto.simps)
  have big: "\<not> (2 :: real) < - BIG" "\<not> (1 :: real) < - BIG" "\<not> (3 :: real) < - BIG"
    by (simp_all add: BIG_def)
  note t1 = sep_kron_radius_outcomes [where gc = ?gc and dtype = 0 and mdtype = 0
      and mask_buf = "Some (\<lambda>i. 1)" and data = "\<lambda>i. 2" and maskthresh = 0 and kronrad = None,
      OF c _ b1 r1 refl refl refl refl refl]
  note t2 = sep_kron_radius_outcomes [where gc = ?gc and dtype = 0 and mdtype = 0
      and mask_buf = None and data = "\<lambda>i. 2" and maskthresh = 0 and kronrad = None,
      OF c _ b1 r1 refl refl refl refl refl]
  note t3 = sep_kron_radius_outcomes [where gc = ?gc and dtype = 0 and mdtype = 0
      and mask_buf = None and data = "\<lambda>i. real_of_int i + 1" and maskthresh = 0
      and kronrad = None,
      OF c _ b2 r2 refl refl refl refl refl]
  have "\<exists>kr fl. ?A = Some (RETURN_OK, kr, fl) \<and> kr = Some 0 \<and> fl AND SEP_APER_ALLMASKED \<noteq> 0"
    using t1 by (simp add: bp1 pixel_index_def kron_counted_def kron_rpix2_def)
  then have w1: "fst (the ?A) = RETURN_OK" "fst (snd (the ?A)) = Some 0"
    "snd (snd (the ?A)) AND SEP_APER_ALLMASKED \<noteq> 0" by auto
  have "\<exists>kr fl. ?B = Some (RETURN_OK, kr, fl) \<and> kr = Some 0 \<and> fl AND SEP_APER_NONPOSITIVE \<noteq> 0"
    using t2 big by (simp add: bp1 pixel_index_def kron_counted_def kron_rpix2_def)
  then have w2: "fst (snd (the ?B)) = Some 0" "snd (snd (the ?B)) AND SEP_APER_NONPOSITIVE \<noteq> 0"
    by auto
  have "\<exists>kr fl. ?C = Some (RETURN_OK, kr, fl) \<and> kr = Some (5 / 6)"
    using t3 big by (simp add: bp2 pixel_index_def kron_counted_def kron_rpix2_def)
  then have w3: "?C \<noteq> None" "fst (snd (the ?C)) = Some (5 / 6)" by auto
  show ?thesis using w1 w2 w3 by blast
qed

end
